theory Spec2Isabelle
  imports Complex_Main "HOL-Library.Sublist"
begin

section \<open>JavaScript values shared by the components\<close>

text \<open>
  JavaScript numbers are modelled as reals where the source computes with fractions and as
  integers where it indexes; the wind sampler, whose result depends on the rounding,
  computes in double precision. \<open>NaN\<close> is kept for the frame cursor, which the interval
  callback computes with the remainder operator. A settled promise chain
  \<^verbatim>\<open>fetch(url)\<close> / \<^verbatim>\<open>res.json()\<close> either rejects at one of the two awaits or
  resolves with the parsed payload.
\<close>

datatype jsnum = Num int | NaN

datatype 'a fetched = FetchRejected | JsonRejected | Resolved 'a

datatype js_error = NetworkError | SyntaxError | TypeError

text \<open>The remainder operator \<^verbatim>\<open>%\<close>: truncated quotient, sign of the dividend.\<close>

definition js_rem :: "real \<Rightarrow> real \<Rightarrow> real" where
  "js_rem a b = a - b * of_int (if 0 \<le> a / b then \<lfloor>a / b\<rfloor> else \<lceil>a / b\<rceil>)"

definition js_irem :: "int \<Rightarrow> int \<Rightarrow> jsnum" where
  "js_irem a n = (if n = 0 then NaN else Num (sgn a * (\<bar>a\<bar> mod \<bar>n\<bar>)))"

definition clamp :: "real \<Rightarrow> real \<Rightarrow> real \<Rightarrow> real" where
  "clamp val a b = max a (min b val)"

subsection \<open>Double-precision arithmetic\<close>

text \<open>
  Where a claim depends on the rounding of the source's arithmetic, numbers are binary64
  values and every operation rounds its exact result to the nearest one, ties to even:
  \<open>fl\<close>, with 53 significant bits and the exponent taken as unbounded (the values met
  here are far from overflow and underflow). \<^verbatim>\<open>Math.PI\<close> is the binary64 value nearest
  to \<open>\<pi>\<close>. \<^verbatim>\<open>Math.sin\<close> and \<^verbatim>\<open>Math.cos\<close>, which the language leaves to the
  implementation, are taken to return the binary64 value nearest to the exact sine and
  cosine of their argument.
\<close>

definition round_even :: "real \<Rightarrow> int" where
  "round_even r =
     (if r - of_int \<lfloor>r\<rfloor> < 1 / 2 then \<lfloor>r\<rfloor>
      else if r - of_int \<lfloor>r\<rfloor> > 1 / 2 then \<lfloor>r\<rfloor> + 1
      else if even \<lfloor>r\<rfloor> then \<lfloor>r\<rfloor> else \<lfloor>r\<rfloor> + 1)"

definition fl :: "real \<Rightarrow> real" where
  "fl a =
     (if a = 0 then 0
      else (let e = \<lfloor>log 2 \<bar>a\<bar>\<rfloor> - 52
            in of_int (round_even (a / 2 powr of_int e)) * 2 powr of_int e))"

definition Math_PI :: real where
  "Math_PI = 884279719003555 / 2 ^ 48"

definition Math_sin :: "real \<Rightarrow> real" where
  "Math_sin r = fl (sin r)"

definition Math_cos :: "real \<Rightarrow> real" where
  "Math_cos r = fl (cos r)"

section \<open>Helpers\<close>

subsection \<open>Rain episode over the 15-minute precipitation series\<close>

text \<open>The result object of \<^verbatim>\<open>computeRainEvent15\<close> has a nullable \<^verbatim>\<open>startMin\<close>.\<close>

record rain_event =
  startMin :: "nat option"
  durationMin :: nat
  totalMm :: real

definition TH :: real where
  "TH = 1 / 10"

text \<open>First loop: the first index whose sample exceeds the threshold.\<close>

function rain_start :: "real list \<Rightarrow> nat \<Rightarrow> nat option" where
  "rain_start arr i =
     (if i < length arr
      then (if arr ! i > TH then Some i else rain_start arr (i + 1))
      else None)"
  by pat_completeness auto
termination
  by (relation "measure (\<lambda>(arr, i). length arr - i)") auto

text \<open>Second loop: accumulate while the samples stay above the threshold.\<close>

function rain_run :: "real list \<Rightarrow> nat \<Rightarrow> real \<Rightarrow> nat \<Rightarrow> real \<times> nat" where
  "rain_run arr i tot e =
     (if i < length arr
      then (if arr ! i > TH then rain_run arr (i + 1) (tot + arr ! i) i
            else (tot, e))
      else (tot, e))"
  by pat_completeness auto
termination
  by (relation "measure (\<lambda>(arr, i, tot, e). length arr - i)") auto

declare rain_start.simps [simp del]
declare rain_run.simps [simp del]

definition computeRainEvent15 :: "real list \<Rightarrow> rain_event" where
  "computeRainEvent15 arr =
     (if arr = [] then \<lparr>startMin = None, durationMin = 0, totalMm = 0\<rparr>
      else case rain_start arr 0 of
        None \<Rightarrow> \<lparr>startMin = None, durationMin = 0, totalMm = 0\<rparr>
      | Some start \<Rightarrow>
          (case rain_run arr start 0 start of
             (tot, e) \<Rightarrow>
               \<lparr>startMin = Some (start * 15),
                durationMin = (e - start + 1) * 15,
                totalMm = tot\<rparr>))"

subsection \<open>HTML escaping and the toast markup\<close>

text \<open>
  \<^verbatim>\<open>String.prototype.replaceAll\<close> with a string pattern, scanning left to right; the
  empty pattern matches between all characters. Strings are byte strings: the five
  characters that \<^verbatim>\<open>escapeHtml\<close> replaces are ASCII, and no multi-byte encoding of
  another character contains an ASCII byte.
\<close>

function replaceAll :: "string \<Rightarrow> string \<Rightarrow> string \<Rightarrow> string" where
  "replaceAll pat rep [] = (if pat = [] then rep else [])"
| "replaceAll pat rep (c # cs) =
     (if pat = [] then rep @ c # replaceAll pat rep cs
      else if prefix pat (c # cs) then rep @ replaceAll pat rep (drop (length pat) (c # cs))
      else c # replaceAll pat rep cs)"
  by pat_completeness auto
termination
  by (relation "measure (\<lambda>(pat, rep, s). length s)") auto

definition escapeHtml :: "string \<Rightarrow> string" where
  "escapeHtml str =
     replaceAll [CHR 0x27] ''&#039;''
       (replaceAll [CHR 0x22] ''&quot;''
         (replaceAll ''>'' ''&gt;''
           (replaceAll ''<'' ''&lt;''
             (replaceAll ''&'' ''&amp;'' str))))"

text \<open>\<^verbatim>\<open>s || d\<close> on strings: the empty string (and a missing field) is falsy.\<close>

definition js_or :: "string \<Rightarrow> string \<Rightarrow> string" where
  "js_or s d = (if s = [] then d else s)"

text \<open>
  The template literal that \<^verbatim>\<open>pushToast\<close> assigns to \<^verbatim>\<open>toast.innerHTML\<close>. The
  default icon and the close glyph are given by their UTF-8 bytes.
\<close>

definition toastHtml :: "string \<Rightarrow> string \<Rightarrow> string \<Rightarrow> string \<Rightarrow> string \<Rightarrow> string" where
  \<open>toastHtml icon title message time actionText =
     ''
    <div class="icon">'' @ escapeHtml (js_or icon [CHR 0xE2, CHR 0x84, CHR 0xB9, CHR 0xEF, CHR 0xB8, CHR 0x8F]) @ ''</div>
    <div>
      <div class="title">'' @ escapeHtml (js_or title []) @ ''</div>
      <div class="meta">'' @ escapeHtml (js_or message []) @ ''</div>
      <div class="meta" style="margin-top:4px">'' @ escapeHtml (js_or time []) @ ''</div>
    </div>
    <div class="toast-row">
      '' @ (if actionText \<noteq> []
          then ''<button class="action">'' @ escapeHtml actionText @ ''</button>''
          else []) @ ''
      <button class="close" title="Fermer">'' @ [CHR 0xE2, CHR 0x9C, CHR 0x95] @ ''</button>
    </div>
  ''\<close>

text \<open>Vocabulary for the properties of the escaped text.\<close>

definition html_entities :: "string list" where
  "html_entities = [''&amp;'', ''&lt;'', ''&gt;'', ''&quot;'', ''&#039;'']"

definition tag_chars :: "string \<Rightarrow> string" where
  "tag_chars s = filter (\<lambda>c. c = CHR ''<'' \<or> c = CHR ''>'') s"

definition entity_of :: "char \<Rightarrow> string" where
  "entity_of c =
     (if c = CHR ''&'' then ''&amp;''
      else if c = CHR ''<'' then ''&lt;''
      else if c = CHR ''>'' then ''&gt;''
      else if c = CHR 0x22 then ''&quot;''
      else if c = CHR 0x27 then ''&#039;''
      else [c])"

section \<open>Radar timeline\<close>

text \<open>
  The repository holds two variants of the script. The definitions follow the one that
  declares \<^verbatim>\<open>showRadarFrame\<close>, \<^verbatim>\<open>startRadarAuto\<close> and
  \<^verbatim>\<open>resizeWindCanvas\<close>; the other one reads \<^verbatim>\<open>frames[i]\<close> at top level, outside
  any function, and its resize listener is modelled separately below.

  The script's module variables \<^verbatim>\<open>map\<close>, \<^verbatim>\<open>radarLayer\<close>, \<^verbatim>\<open>frames\<close>,
  \<^verbatim>\<open>frameIndex\<close> and \<^verbatim>\<open>anim\<close>, together with the page elements the timeline
  writes. \<open>timers\<close> is the browser's table of live intervals created by
  \<^verbatim>\<open>startRadarAuto\<close>, \<open>next_timer\<close> the handle the next \<^verbatim>\<open>setInterval\<close> returns
  (handles are positive), and \<open>load_pending\<close> records that \<^verbatim>\<open>loadRadarFrames\<close> is
  suspended at an await.
\<close>

record frame =
  time :: int
  path :: string

record radar_part =
  past :: "frame list option"
  nowcast :: "frame list option"

record catalog =
  radar :: "radar_part option"

record tile_layer =
  layer_url :: string
  on_map :: bool

text \<open>
  \<open>LocaleTime ms\<close> stands for the text
  \<^verbatim>\<open>new Date(ms).toLocaleTimeString("fr-FR", {hour: "2-digit", minute: "2-digit"})\<close>,
  whose rendering belongs to the browser.
\<close>

datatype label_text = Text string | LocaleTime int

record radar_state =
  map_ready :: bool
  radarLayer :: "tile_layer option"
  frames :: "frame list"
  frameIndex :: jsnum
  anim :: "nat option"
  timers :: "nat set"
  next_timer :: nat
  load_pending :: bool
  statusText :: string
  sliderMin :: int
  sliderMax :: int
  sliderValue :: jsnum
  timeLabel :: label_text
  playBtnText :: string
  radarToggle :: bool
  rainAutoToggle :: bool

definition status_loading :: string where
  "status_loading = ''Chargement radar'' @ [CHR 0xE2, CHR 0x80, CHR 0xA6]"

definition status_unavailable :: string where
  "status_unavailable = ''Radar indisponible''"

definition status_ready :: string where
  "status_ready = ''Radar pr'' @ [CHR 0xC3, CHR 0xAA] @ ''t''"

definition status_error :: string where
  "status_error = ''Erreur radar''"

definition icon_pause :: string where
  "icon_pause = [CHR 0xE2, CHR 0x8F, CHR 0xB8]"

definition icon_play :: string where
  "icon_play = [CHR 0xE2, CHR 0x96, CHR 0xB6]"

text \<open>\<^verbatim>\<open>frames[i]\<close>: undefined outside the array and for \<^verbatim>\<open>NaN\<close>.\<close>

definition frame_at :: "frame list \<Rightarrow> jsnum \<Rightarrow> frame option" where
  "frame_at fs i =
     (case i of
        NaN \<Rightarrow> None
      | Num k \<Rightarrow> if 0 \<le> k \<and> k < int (length fs) then Some (fs ! nat k) else None)"

definition tileUrl :: "frame \<Rightarrow> string" where
  "tileUrl f = ''https://tilecache.rainviewer.com'' @ path f @ ''/256/{z}/{x}/{y}/2/1_1.png''"

definition showRadarFrame :: "radar_state \<Rightarrow> jsnum \<Rightarrow> radar_state" where
  "showRadarFrame st i =
     (case frame_at (frames st) i of
        None \<Rightarrow> st
      | Some f \<Rightarrow>
          if \<not> map_ready st then st
          else (case radarLayer st of
                  None \<Rightarrow> st\<lparr>radarLayer := Some \<lparr>layer_url = tileUrl f, on_map = True\<rparr>\<rparr>
                | Some l \<Rightarrow>
                    st\<lparr>radarLayer :=
                         Some (l\<lparr>layer_url := tileUrl f,
                                 on_map := (if radarToggle st \<and> \<not> on_map l then True else on_map l)\<rparr>)\<rparr>))"

definition updateTimeLabel :: "radar_state \<Rightarrow> radar_state" where
  "updateTimeLabel st =
     (case frame_at (frames st) (frameIndex st) of
        None \<Rightarrow> st
      | Some f \<Rightarrow> st\<lparr>timeLabel := LocaleTime (time f * 1000)\<rparr>)"


text \<open>
  \<^verbatim>\<open>loadRadarFrames\<close> runs up to its first await, and resumes when the catalog request
  has settled. \<open>loadRadarFrames_try\<close> is the body of the \<^verbatim>\<open>try\<close> block; a rejection
  at either await arrives in the \<^verbatim>\<open>catch\<close> clause of \<open>loadRadarFrames_resume\<close>.
\<close>

definition loadRadarFrames_begin :: "radar_state \<Rightarrow> radar_state" where
  "loadRadarFrames_begin st = st\<lparr>statusText := status_loading, load_pending := True\<rparr>"

definition loadRadarFrames_try :: "radar_state \<Rightarrow> catalog option fetched \<Rightarrow> js_error + radar_state" where
  "loadRadarFrames_try st res =
     (case res of
        FetchRejected \<Rightarrow> Inl NetworkError
      | JsonRejected \<Rightarrow> Inl SyntaxError
      | Resolved data \<Rightarrow>
          (let r = (case data of None \<Rightarrow> None | Some d \<Rightarrow> radar d);
               past' = (case r of None \<Rightarrow> [] | Some rp \<Rightarrow> (case past rp of None \<Rightarrow> [] | Some ps \<Rightarrow> ps));
               nowcast' = (case r of None \<Rightarrow> [] | Some rp \<Rightarrow> (case nowcast rp of None \<Rightarrow> [] | Some ns \<Rightarrow> ns));
               st1 = st\<lparr>frames := past' @ nowcast'\<rparr>
           in if frames st1 = [] then Inr (st1\<lparr>statusText := status_unavailable\<rparr>)
              else
                (let st2 = st1\<lparr>frameIndex := Num (max 0 (int (length past') - 1))\<rparr>;
                     st3 = st2\<lparr>sliderMin := 0,
                               sliderMax := int (length (frames st2)) - 1,
                               sliderValue := frameIndex st2\<rparr>;
                     st4 = showRadarFrame st3 (frameIndex st3);
                     st5 = updateTimeLabel st4
                 in Inr (st5\<lparr>statusText := status_ready\<rparr>))))"

definition loadRadarFrames_resume :: "radar_state \<Rightarrow> catalog option fetched \<Rightarrow> js_error + radar_state" where
  "loadRadarFrames_resume st res =
     (let st0 = st\<lparr>load_pending := False\<rparr>
      in case loadRadarFrames_try st0 res of
           Inr st' \<Rightarrow> Inr st'
         | Inl err \<Rightarrow> Inr (st0\<lparr>statusText := status_error\<rparr>))"

definition loadRadarFrames :: "radar_state \<Rightarrow> catalog option fetched \<Rightarrow> js_error + radar_state" where
  "loadRadarFrames st res = loadRadarFrames_resume (loadRadarFrames_begin st) res"

definition startRadarAuto :: "radar_state \<Rightarrow> radar_state" where
  "startRadarAuto st =
     (if anim st \<noteq> None \<or> frames st = [] then st
      else st\<lparr>playBtnText := icon_pause,
              anim := Some (next_timer st),
              timers := insert (next_timer st) (timers st),
              next_timer := next_timer st + 1\<rparr>)"

definition stopRadarAuto :: "radar_state \<Rightarrow> radar_state" where
  "stopRadarAuto st =
     (case anim st of
        None \<Rightarrow> st
      | Some h \<Rightarrow> st\<lparr>timers := timers st - {h}, anim := None\<rparr>)"

text \<open>The callback that \<^verbatim>\<open>startRadarAuto\<close> passes to \<^verbatim>\<open>setInterval\<close>.\<close>

definition radarTick :: "radar_state \<Rightarrow> radar_state" where
  "radarTick st =
     (let st1 = st\<lparr>frameIndex :=
                     (case frameIndex st of
                        NaN \<Rightarrow> NaN
                      | Num k \<Rightarrow> js_irem (k + 1) (int (length (frames st))))\<rparr>;
          st2 = st1\<lparr>sliderValue := frameIndex st1\<rparr>
      in updateTimeLabel (showRadarFrame st2 (frameIndex st2)))"

text \<open>The listeners of the slider, the play button and the two radar toggles.\<close>

definition sliderInput :: "radar_state \<Rightarrow> int \<Rightarrow> radar_state" where
  "sliderInput st n =
     (let st1 = st\<lparr>sliderValue := Num n, frameIndex := Num n\<rparr>
      in updateTimeLabel (showRadarFrame st1 (frameIndex st1)))"

definition playBtnClick :: "radar_state \<Rightarrow> radar_state" where
  "playBtnClick st =
     (if frames st = [] then st
      else if anim st \<noteq> None
        then (stopRadarAuto st)\<lparr>rainAutoToggle := False, playBtnText := icon_play\<rparr>
        else (startRadarAuto (st\<lparr>rainAutoToggle := True\<rparr>))\<lparr>playBtnText := icon_pause\<rparr>)"

definition rainAutoToggleChange :: "radar_state \<Rightarrow> bool \<Rightarrow> radar_state" where
  "rainAutoToggleChange st b =
     (let st1 = st\<lparr>rainAutoToggle := b\<rparr>
      in if rainAutoToggle st1 then startRadarAuto st1 else stopRadarAuto st1)"

definition radarToggleChange :: "radar_state \<Rightarrow> bool \<Rightarrow> radar_state" where
  "radarToggleChange st b =
     (let st1 = st\<lparr>radarToggle := b\<rparr>
      in case radarLayer st1 of
           None \<Rightarrow> st1
         | Some l \<Rightarrow> st1\<lparr>radarLayer := Some (l\<lparr>on_map := radarToggle st1\<rparr>)\<rparr>)"

text \<open>The part of \<^verbatim>\<open>initMap\<close> that concerns the timeline.\<close>

definition initMap :: "radar_state \<Rightarrow> radar_state" where
  "initMap st = startRadarAuto (loadRadarFrames_begin (st\<lparr>map_ready := True\<rparr>))"

text \<open>
  The events the timeline reacts to. \<^verbatim>\<open>initMap\<close> is called once, by the geolocation
  callback; the toggle listeners are registered inside it; an interval fires only while
  its handle is live. \<open>run page evs\<close> is the state after the events \<open>evs\<close>, starting
  from the script's initial values on a page whose elements hold anything.
\<close>

datatype event =
    InitMap
  | CatalogSettled "catalog option fetched"
  | SliderInput int
  | PlayBtnClick
  | RainAutoToggleChange bool
  | RadarToggleChange bool
  | IntervalFired nat

definition handle :: "radar_state \<Rightarrow> event \<Rightarrow> radar_state" where
  "handle st ev =
     (case ev of
        InitMap \<Rightarrow> if map_ready st then st else initMap st
      | CatalogSettled res \<Rightarrow>
          if load_pending st
          then (case loadRadarFrames_resume st res of Inr st' \<Rightarrow> st' | Inl err \<Rightarrow> st)
          else st
      | SliderInput n \<Rightarrow> sliderInput st n
      | PlayBtnClick \<Rightarrow> playBtnClick st
      | RainAutoToggleChange b \<Rightarrow> if map_ready st then rainAutoToggleChange st b else st
      | RadarToggleChange b \<Rightarrow> if map_ready st then radarToggleChange st b else st
      | IntervalFired h \<Rightarrow> if h \<in> timers st then radarTick st else st)"

definition script_start :: "radar_state \<Rightarrow> radar_state" where
  "script_start page =
     page\<lparr>map_ready := False, radarLayer := None, frames := [], frameIndex := Num 0,
         anim := None, timers := {}, next_timer := 1, load_pending := False\<rparr>"

definition run :: "radar_state \<Rightarrow> event list \<Rightarrow> radar_state" where
  "run page evs = foldl handle (script_start page) evs"


text \<open>A concrete page and catalog, used to instantiate the theorems below.\<close>

definition demo_frame :: "int \<Rightarrow> frame" where
  "demo_frame k = \<lparr>time = 1700000000 + 600 * k, path = ''/v2/radar/demo''\<rparr>"

definition demo_page :: radar_state where
  "demo_page =
     \<lparr>map_ready = False, radarLayer = None, frames = [], frameIndex = Num 0, anim = None,
      timers = {}, next_timer = 1, load_pending = False, statusText = [], sliderMin = 0,
      sliderMax = 100, sliderValue = Num 50, timeLabel = Text ''--:--'', playBtnText = icon_pause,
      radarToggle = True, rainAutoToggle = True\<rparr>"

definition demo_catalog :: "catalog option fetched" where
  "demo_catalog =
     Resolved (Some \<lparr>radar = Some \<lparr>past = Some (map demo_frame [0, 1, 2]),
                                      nowcast = Some (map demo_frame [3])\<rparr>\<rparr>)"


text \<open>Invariants of the reachable states.\<close>

definition timer_inv :: "radar_state \<Rightarrow> bool" where
  "timer_inv st = (timers st = (case anim st of None \<Rightarrow> {} | Some h \<Rightarrow> {h}))"


section \<open>Vector field sampler\<close>

text \<open>
  \<^verbatim>\<open>fetchPointWind\<close> as a function of the settled point-forecast request. A missing
  \<^verbatim>\<open>hourly\<close> object or array raises inside the \<^verbatim>\<open>try\<close> block and yields
  \<^verbatim>\<open>null\<close>; an empty array yields an object whose fields are undefined or
  \<^verbatim>\<open>NaN\<close>, written \<open>Degenerate\<close>. The arithmetic is the source's, operation by
  operation, in double precision; the remainder operator is exact on binary64 values.
\<close>

record wind_sample =
  spd :: real
  deg :: real
  u :: real
  v :: real

record hourly_wind =
  windspeed_10m :: "real list option"
  winddirection_10m :: "real list option"

record forecast =
  hourly :: "hourly_wind option"

datatype wind_result = Null | Degenerate | Sample wind_sample

definition fetchPointWind :: "forecast option fetched \<Rightarrow> wind_result" where
  "fetchPointWind res =
     (case res of
        FetchRejected \<Rightarrow> Null
      | JsonRejected \<Rightarrow> Null
      | Resolved None \<Rightarrow> Null
      | Resolved (Some data) \<Rightarrow>
          (case hourly data of
             None \<Rightarrow> Null
           | Some h \<Rightarrow>
               (case windspeed_10m h of
                  None \<Rightarrow> Null
                | Some speeds \<Rightarrow>
                    (case winddirection_10m h of
                       None \<Rightarrow> Null
                     | Some dirs \<Rightarrow>
                         (case (speeds, dirs) of
                            (s # _, d # _) \<Rightarrow>
                              (let toDeg = js_rem (fl (d + 180)) 360;
                                   toRad = fl (fl (toDeg * Math_PI) / 180)
                               in Sample \<lparr>spd = s, deg = d,
                                          u = fl (Math_sin toRad * s),
                                          v = fl (Math_cos toRad * s)\<rparr>)
                          | _ \<Rightarrow> Degenerate)))))"

section \<open>Particle field\<close>

text \<open>
  The pool \<^verbatim>\<open>windParticles\<close> is an array of object references; \<open>heap\<close> holds the
  objects. \<open>random\<close> is the sequence of values that \<^verbatim>\<open>Math.random\<close> returns and
  \<open>random_pos\<close> how many have been drawn; \<open>frame_requests\<close> counts the callbacks
  scheduled by \<^verbatim>\<open>requestAnimationFrame\<close>. A \<open>viewport\<close> is the window's size and
  pixel density at the time of a call. What is painted on the canvas is not part of the
  state. The center wind holds numbers, for which \<^verbatim>\<open>windCenter.spd || 0\<close> is
  \<^verbatim>\<open>windCenter.spd\<close>.
\<close>

record particle =
  x :: real
  y :: real
  age :: real

record viewport =
  innerWidth :: real
  innerHeight :: real
  devicePixelRatio :: real

record wind_state =
  windRunning :: bool
  windParticles :: "nat list"
  heap :: "nat \<Rightarrow> particle"
  next_ref :: nat
  windCenter :: wind_sample
  canvasWidth :: int
  canvasHeight :: int
  canvasScale :: real
  random :: "nat \<Rightarrow> real"
  random_pos :: nat
  frame_requests :: nat

definition resizeWindCanvas :: "viewport \<Rightarrow> wind_state \<Rightarrow> wind_state" where
  "resizeWindCanvas win st =
     (let dpr = (if devicePixelRatio win = 0 then 1 else devicePixelRatio win)
      in st\<lparr>canvasWidth := \<lfloor>innerWidth win * dpr\<rfloor>,
             canvasHeight := \<lfloor>innerHeight win * dpr\<rfloor>,
             canvasScale := dpr\<rparr>)"

definition newParticle :: "viewport \<Rightarrow> wind_state \<Rightarrow> nat \<times> wind_state" where
  "newParticle win st =
     (let r = next_ref st;
          obj = \<lparr>x = random st (random_pos st) * innerWidth win,
                 y = random st (random_pos st + 1) * innerHeight win,
                 age = random st (random_pos st + 2) * 120\<rparr>
      in (r, st\<lparr>heap := (heap st)(r := obj), next_ref := r + 1,
                random_pos := random_pos st + 3\<rparr>))"

function initParticles_loop :: "viewport \<Rightarrow> nat \<Rightarrow> wind_state \<Rightarrow> wind_state" where
  "initParticles_loop win i st =
     (if i < 650
      then (case newParticle win st of
              (r, st') \<Rightarrow>
                initParticles_loop win (i + 1) (st'\<lparr>windParticles := windParticles st' @ [r]\<rparr>))
      else st)"
  by pat_completeness auto
termination
  by (relation "measure (\<lambda>(win, i, st). 650 - i)") auto

declare initParticles_loop.simps [simp del]

definition initParticles :: "viewport \<Rightarrow> wind_state \<Rightarrow> wind_state" where
  "initParticles win st = initParticles_loop win 0 (st\<lparr>windParticles := []\<rparr>)"

text \<open>
  The body of the loop over the pool: advect the object, then overwrite it with a new
  particle's fields (\<^verbatim>\<open>Object.assign\<close>) when it has left the window or is too old.
\<close>

definition advected :: "wind_sample \<Rightarrow> real \<Rightarrow> particle \<Rightarrow> particle" where
  "advected c speedFactor p =
     p\<lparr>x := x p + (u c * 0.07) * speedFactor,
       y := y p + (v c * (- 0.07)) * speedFactor,
       age := age p + 1\<rparr>"

definition out_of_play :: "viewport \<Rightarrow> particle \<Rightarrow> bool" where
  "out_of_play win p =
     (x p < 0 \<or> x p > innerWidth win \<or> y p < 0 \<or> y p > innerHeight win \<or> age p > 150)"

definition moveParticle :: "viewport \<Rightarrow> real \<Rightarrow> nat \<Rightarrow> wind_state \<Rightarrow> wind_state" where
  "moveParticle win speedFactor p st =
     (let st1 = st\<lparr>heap := (heap st)(p := advected (windCenter st) speedFactor (heap st p))\<rparr>
      in if out_of_play win (heap st1 p)
         then (case newParticle win st1 of
                 (r, st2) \<Rightarrow> st2\<lparr>heap := (heap st2)(p := heap st2 r)\<rparr>)
         else st1)"

definition loopParticles :: "viewport \<Rightarrow> wind_state \<Rightarrow> wind_state" where
  "loopParticles win st =
     (if \<not> windRunning st then st
      else
        (let speedFactor = clamp (spd (windCenter st) / 25) 0.2 2.6;
             st1 = fold (moveParticle win speedFactor) (windParticles st) st
         in st1\<lparr>frame_requests := frame_requests st1 + 1\<rparr>))"

definition startWindParticles :: "viewport \<Rightarrow> wind_state \<Rightarrow> wind_state" where
  "startWindParticles win st = loopParticles win (initParticles win (st\<lparr>windRunning := True\<rparr>))"

definition stopWindParticles :: "wind_state \<Rightarrow> wind_state" where
  "stopWindParticles st = st\<lparr>windRunning := False, windParticles := []\<rparr>"

text \<open>
  The other variant of the script registers this listener for the window's resize event.
\<close>

definition resizeCanvas :: "viewport \<Rightarrow> wind_state \<Rightarrow> wind_state" where
  "resizeCanvas win st =
     st\<lparr>canvasWidth := \<lfloor>innerWidth win\<rfloor>, canvasHeight := \<lfloor>innerHeight win\<rfloor>\<rparr>"

definition resizeCanvas_listener :: "viewport \<Rightarrow> wind_state \<Rightarrow> wind_state" where
  "resizeCanvas_listener win st =
     (let st1 = resizeCanvas win st
      in if windRunning st1 then initParticles win st1 else st1)"

text \<open>
  What happens to the particle field between \<^verbatim>\<open>startWindParticles\<close> and
  \<^verbatim>\<open>stopWindParticles\<close>: animation frames, updates of the center wind, and the window
  and map events whose listener is \<^verbatim>\<open>resizeWindCanvas\<close>.
\<close>

datatype wind_event =
    AnimationFrame viewport
  | CenterWind wind_sample
  | WindowResize viewport
  | MapMoveEnd viewport

definition wind_handle :: "wind_state \<Rightarrow> wind_event \<Rightarrow> wind_state" where
  "wind_handle st ev =
     (case ev of
        AnimationFrame win \<Rightarrow>
          if frame_requests st = 0 then st
          else loopParticles win (st\<lparr>frame_requests := frame_requests st - 1\<rparr>)
      | CenterWind w \<Rightarrow> st\<lparr>windCenter := w\<rparr>
      | WindowResize win \<Rightarrow> resizeWindCanvas win st
      | MapMoveEnd win \<Rightarrow> resizeWindCanvas win st)"

text \<open>The fields that the \<open>k\<close>-th call of \<^verbatim>\<open>newParticle\<close> from a state gives its object.\<close>

definition fresh_particle :: "viewport \<Rightarrow> wind_state \<Rightarrow> nat \<Rightarrow> particle" where
  "fresh_particle win st k =
     \<lparr>x = random st (random_pos st + 3 * k) * innerWidth win,
      y = random st (random_pos st + 3 * k + 1) * innerHeight win,
      age = random st (random_pos st + 3 * k + 2) * 120\<rparr>"




section \<open>Glyph layers\<close>

text \<open>
  The map's layer set and the two layer references. \<^verbatim>\<open>map.removeLayer\<close> on an
  undefined map raises a TypeError.
\<close>

record glyph_state =
  map_exists :: bool
  map_layers :: "nat set"
  next_layer :: nat
  windArrowLayer :: "nat option"
  rainDirLayer :: "nat option"

definition clearWindArrows :: "glyph_state \<Rightarrow> js_error + glyph_state" where
  "clearWindArrows st =
     (case windArrowLayer st of
        None \<Rightarrow> Inr st
      | Some l \<Rightarrow>
          if \<not> map_exists st then Inl TypeError
          else Inr (st\<lparr>map_layers := map_layers st - {l}, windArrowLayer := None\<rparr>))"

definition clearRainDirection :: "glyph_state \<Rightarrow> js_error + glyph_state" where
  "clearRainDirection st =
     (case rainDirLayer st of
        None \<Rightarrow> Inr st
      | Some l \<Rightarrow>
          if \<not> map_exists st then Inl TypeError
          else Inr (st\<lparr>map_layers := map_layers st - {l}, rainDirLayer := None\<rparr>))"

section \<open>Vocabulary for the numeric bounds\<close>

text \<open>
  The partial sums of the sine and cosine series in nested form,
  \<open>\<Sum>i<k. (-1)\<^sup>i z\<^sup>i a! / (a + 2i)!\<close>; the double that the source computes for 270 degrees
  in radians, and its square.
\<close>

fun trig_horner :: "nat \<Rightarrow> nat \<Rightarrow> real \<Rightarrow> real" where
  "trig_horner 0 a z = 0"
| "trig_horner (Suc k) a z = 1 - z / (real (a + 1) * real (a + 2)) * trig_horner k (a + 2) z"

declare trig_horner.simps [simp del]

definition toRad270 :: real where
  "toRad270 = 5305678314021330 / 2 ^ 50"

definition zz :: real where
  "zz = 7037555592969055708218923742225 / 2 ^ 98"

section \<open>Properties of the helpers\<close>

text \<open>
  C3: on the series [0, 0, 0.05, 0.3, 0.4, 0.0, 0.2] with threshold 0.1,
  \<^verbatim>\<open>computeRainEvent15\<close> returns startMin = 45, durationMin = 30 and totalMm = 0.7;
  the 0.2 sample after the sub-threshold gap is counted neither in the duration nor in
  the total.
\<close>

theorem computeRainEvent15_example:
  "computeRainEvent15 [0, 0, 5 / 100, 3 / 10, 4 / 10, 0, 2 / 10]
     = \<lparr>startMin = Some 45, durationMin = 30, totalMm = 7 / 10\<rparr>"
  by (simp add: computeRainEvent15_def TH_def rain_start.simps rain_run.simps)

subsection \<open>Escaping is character by character\<close>

lemma replaceAll_single:
  "replaceAll [c] rep s = concat (map (\<lambda>x. if x = c then rep else [x]) s)"
  by (induction s) auto

lemma replaceAll_single_append:
  "replaceAll [c] rep (a @ b) = replaceAll [c] rep a @ replaceAll [c] rep b"
  by (simp add: replaceAll_single)

lemma escapeHtml_Nil: "escapeHtml [] = []"
  by (simp add: escapeHtml_def)

lemma escapeHtml_Cons: "escapeHtml (c # s) = entity_of c @ escapeHtml s"
  unfolding escapeHtml_def entity_of_def
  by (simp add: replaceAll_single)

lemma escapeHtml_concat: "escapeHtml s = concat (map entity_of s)"
  by (induction s) (simp_all add: escapeHtml_Nil escapeHtml_Cons)

lemma entity_of_no_special:
  "CHR ''<'' \<notin> set (entity_of c) \<and> CHR ''>'' \<notin> set (entity_of c)
   \<and> CHR 0x22 \<notin> set (entity_of c) \<and> CHR 0x27 \<notin> set (entity_of c)"
  by (auto simp: entity_of_def)

lemma escapeHtml_no_special:
  "CHR ''<'' \<notin> set (escapeHtml s) \<and> CHR ''>'' \<notin> set (escapeHtml s)
   \<and> CHR 0x22 \<notin> set (escapeHtml s) \<and> CHR 0x27 \<notin> set (escapeHtml s)"
  using entity_of_no_special by (induction s) (auto simp: escapeHtml_Nil escapeHtml_Cons)

lemma entity_of_amp:
  assumes "i < length (entity_of c)" "entity_of c ! i = CHR ''&''"
  shows "i = 0 \<and> entity_of c \<in> set html_entities"
  using assms by (auto simp: entity_of_def html_entities_def nth_Cons' split: if_splits)

lemma escapeHtml_amp:
  "i < length (escapeHtml s) \<Longrightarrow> escapeHtml s ! i = CHR ''&''
     \<Longrightarrow> \<exists>e \<in> set html_entities. prefix e (drop i (escapeHtml s))"
proof (induction s arbitrary: i)
  case Nil
  then show ?case by (simp add: escapeHtml_Nil)
next
  case (Cons c s)
  show ?case
  proof (cases "i < length (entity_of c)")
    case True
    with Cons.prems have "entity_of c ! i = CHR ''&''"
      by (simp add: escapeHtml_Cons nth_append)
    with True have "i = 0" and "entity_of c \<in> set html_entities"
      using entity_of_amp by blast+
    then show ?thesis
      by (auto simp: escapeHtml_Cons intro!: bexI[of _ "entity_of c"])
  next
    case False
    define j where "j = i - length (entity_of c)"
    from False Cons.prems have "j < length (escapeHtml s)" "escapeHtml s ! j = CHR ''&''"
      by (simp_all add: j_def escapeHtml_Cons nth_append)
    from Cons.IH[OF this] False show ?thesis
      by (simp add: escapeHtml_Cons j_def)
  qed
qed

lemma tag_chars_escapeHtml: "tag_chars (escapeHtml s) = []"
  using escapeHtml_no_special[of s] by (auto simp: tag_chars_def filter_empty_conv)

lemma tag_chars_append: "tag_chars (a @ b) = tag_chars a @ tag_chars b"
  by (simp add: tag_chars_def)

lemma tag_chars_Nil: "tag_chars [] = []"
  by (simp add: tag_chars_def)

lemma tag_chars_Cons:
  "tag_chars (c # s) = (if c = CHR ''<'' \<or> c = CHR ''>'' then c # tag_chars s else tag_chars s)"
  by (simp add: tag_chars_def)

lemma toast_tags:
  "tag_chars (toastHtml ic ti me tm act) = concat (replicate (if act \<noteq> [] then 16 else 14) ''<>'')"
  by (simp add: toastHtml_def tag_chars_append tag_chars_escapeHtml tag_chars_Cons tag_chars_Nil
        eval_nat_numeral)

text \<open>
  C10: the output of \<^verbatim>\<open>escapeHtml\<close> contains none of the characters \<open><\<close>, \<open>>\<close>,
  double quote and single quote, and every \<open>&\<close> in it begins one of the five entities;
  so the tag delimiters of the markup that \<^verbatim>\<open>pushToast\<close> builds are those of its
  fixed template (14 pairs, 16 with the action button), whatever the fields contain.
\<close>

theorem escapeHtml_safe:
  "CHR ''<'' \<notin> set (escapeHtml s) \<and> CHR ''>'' \<notin> set (escapeHtml s)
   \<and> CHR 0x22 \<notin> set (escapeHtml s) \<and> CHR 0x27 \<notin> set (escapeHtml s)
   \<and> (\<forall>i < length (escapeHtml s). escapeHtml s ! i = CHR ''&'' \<longrightarrow>
          (\<exists>e \<in> set html_entities. prefix e (drop i (escapeHtml s))))
   \<and> tag_chars (toastHtml ic ti me tm act)
         = concat (replicate (if act \<noteq> [] then 16 else 14) ''<>'')"
  using escapeHtml_no_special[of s] escapeHtml_amp[of _ s] toast_tags[of ic ti me tm act]
  by blast

theorem escapeHtml_safe_witness:
  "4 < length (escapeHtml ''<&'') \<and> escapeHtml ''<&'' ! 4 = CHR ''&''
   \<and> (\<exists>e \<in> set html_entities. prefix e (drop 4 (escapeHtml ''<&'')))"
proof -
  have len: "4 < length (escapeHtml ''<&'')"
    by (simp add: escapeHtml_Cons escapeHtml_Nil entity_of_def)
  have amp: "escapeHtml ''<&'' ! 4 = CHR ''&''"
    by (simp add: escapeHtml_Cons escapeHtml_Nil entity_of_def)
  from escapeHtml_safe[of "''<&''"] len amp
  have "\<exists>e \<in> set html_entities. prefix e (drop 4 (escapeHtml ''<&''))" by blast
  with len amp show ?thesis by blast
qed

section \<open>Properties of the radar timeline\<close>


lemma showRadarFrame_fields:
  "frames (showRadarFrame st i) = frames st"
  "frameIndex (showRadarFrame st i) = frameIndex st"
  "anim (showRadarFrame st i) = anim st"
  "timers (showRadarFrame st i) = timers st"
  "map_ready (showRadarFrame st i) = map_ready st"
  "load_pending (showRadarFrame st i) = load_pending st"
  "timeLabel (showRadarFrame st i) = timeLabel st"
  "sliderMin (showRadarFrame st i) = sliderMin st"
  "sliderMax (showRadarFrame st i) = sliderMax st"
  "sliderValue (showRadarFrame st i) = sliderValue st"
  "next_timer (showRadarFrame st i) = next_timer st"
  "statusText (showRadarFrame st i) = statusText st"
  "playBtnText (showRadarFrame st i) = playBtnText st"
  "radarToggle (showRadarFrame st i) = radarToggle st"
  "rainAutoToggle (showRadarFrame st i) = rainAutoToggle st"
  by (simp_all add: showRadarFrame_def split: option.splits)

lemma updateTimeLabel_fields:
  "frames (updateTimeLabel st) = frames st"
  "frameIndex (updateTimeLabel st) = frameIndex st"
  "anim (updateTimeLabel st) = anim st"
  "timers (updateTimeLabel st) = timers st"
  "map_ready (updateTimeLabel st) = map_ready st"
  "load_pending (updateTimeLabel st) = load_pending st"
  "radarLayer (updateTimeLabel st) = radarLayer st"
  "sliderMin (updateTimeLabel st) = sliderMin st"
  "sliderMax (updateTimeLabel st) = sliderMax st"
  "sliderValue (updateTimeLabel st) = sliderValue st"
  "next_timer (updateTimeLabel st) = next_timer st"
  "statusText (updateTimeLabel st) = statusText st"
  "playBtnText (updateTimeLabel st) = playBtnText st"
  "radarToggle (updateTimeLabel st) = radarToggle st"
  "rainAutoToggle (updateTimeLabel st) = rainAutoToggle st"
  by (simp_all add: updateTimeLabel_def split: option.splits)

lemmas show_fields = showRadarFrame_fields updateTimeLabel_fields

text \<open>
  C1: when the catalog request resolves with 10 past and 2 nowcast frames,
  \<^verbatim>\<open>loadRadarFrames\<close> replaces the frame list with the 12 frames, past first, sets
  \<^verbatim>\<open>frameIndex\<close> to 9, the last past frame, and the slider bounds to 0 and 11.
\<close>

theorem loadRadarFrames_ten_past_two_nowcast:
  assumes "length ps = 10" and "length ns = 2"
  shows "\<exists>st'. loadRadarFrames st (Resolved (Some \<lparr>radar = Some \<lparr>past = Some ps, nowcast = Some ns\<rparr>\<rparr>)) = Inr st'
           \<and> frames st' = ps @ ns \<and> length (frames st') = 12
           \<and> frameIndex st' = Num 9 \<and> sliderMin st' = 0 \<and> sliderMax st' = 11"
proof -
  from assms have ne: "ps \<noteq> []" by auto
  show ?thesis
    using assms ne
    by (simp add: loadRadarFrames_def loadRadarFrames_resume_def loadRadarFrames_try_def
        loadRadarFrames_begin_def Let_def show_fields)
qed

theorem loadRadarFrames_ten_past_two_nowcast_witness:
  "length (map demo_frame [0, 1, 2, 3, 4, 5, 6, 7, 8, 9]) = 10 \<and> length (map demo_frame [10, 11]) = 2
   \<and> (\<exists>st'. loadRadarFrames demo_page
         (Resolved (Some \<lparr>radar = Some \<lparr>past = Some (map demo_frame [0, 1, 2, 3, 4, 5, 6, 7, 8, 9]),
                                          nowcast = Some (map demo_frame [10, 11])\<rparr>\<rparr>)) = Inr st'
        \<and> frameIndex st' = Num 9 \<and> sliderMin st' = 0 \<and> sliderMax st' = 11)"
proof -
  have a: "length (map demo_frame [0, 1, 2, 3, 4, 5, 6, 7, 8, 9]) = 10" by simp
  have b: "length (map demo_frame [10, 11]) = 2" by simp
  from loadRadarFrames_ten_past_two_nowcast[OF a b, of demo_page] a b show ?thesis by blast
qed

text \<open>
  C4: when the catalog request rejects, at the fetch or while parsing the response,
  \<^verbatim>\<open>loadRadarFrames\<close> completes normally, leaves the frame list and
  \<^verbatim>\<open>frameIndex\<close> as they were and sets the status text to the error string.
\<close>

theorem loadRadarFrames_fails_softly:
  "(\<exists>st'. loadRadarFrames st FetchRejected = Inr st'
        \<and> frames st' = frames st \<and> frameIndex st' = frameIndex st
        \<and> statusText st' = status_error)
   \<and> (\<exists>st'. loadRadarFrames st JsonRejected = Inr st'
        \<and> frames st' = frames st \<and> frameIndex st' = frameIndex st
        \<and> statusText st' = status_error)"
  by (simp add: loadRadarFrames_def loadRadarFrames_resume_def loadRadarFrames_try_def
        loadRadarFrames_begin_def Let_def)

lemma startRadarAuto_twice: "startRadarAuto (startRadarAuto st) = startRadarAuto st"
  by (simp add: startRadarAuto_def)

lemma timer_inv_show: "timer_inv (updateTimeLabel (showRadarFrame st i)) = timer_inv st"
  by (simp add: timer_inv_def show_fields)

lemma timer_inv_start: "timer_inv st \<Longrightarrow> timer_inv (startRadarAuto st)"
  by (auto simp: timer_inv_def startRadarAuto_def)

lemma timer_inv_stop: "timer_inv st \<Longrightarrow> timer_inv (stopRadarAuto st)"
  by (auto simp: timer_inv_def stopRadarAuto_def split: option.splits)

lemma timer_inv_load: "timer_inv st \<Longrightarrow> loadRadarFrames_resume st res = Inr st' \<Longrightarrow> timer_inv st'"
  by (auto simp: timer_inv_def loadRadarFrames_resume_def loadRadarFrames_try_def Let_def show_fields
      split: fetched.splits if_splits)

lemma timer_inv_handle: "timer_inv st \<Longrightarrow> timer_inv (handle st ev)"
proof (cases ev)
  case InitMap
  assume "timer_inv st"
  then have "timer_inv (loadRadarFrames_begin (st\<lparr>map_ready := True\<rparr>))"
    by (simp add: timer_inv_def loadRadarFrames_begin_def)
  then show ?thesis using InitMap \<open>timer_inv st\<close>
    by (simp add: handle_def initMap_def timer_inv_start)
next
  case (CatalogSettled res)
  assume "timer_inv st"
  then show ?thesis using CatalogSettled
    by (auto simp: handle_def split: sum.splits dest: timer_inv_load)
next
  case (SliderInput n)
  assume "timer_inv st"
  then have "timer_inv (st\<lparr>sliderValue := Num n, frameIndex := Num n\<rparr>)"
    by (simp add: timer_inv_def)
  then show ?thesis using SliderInput
    by (simp add: handle_def sliderInput_def Let_def timer_inv_show)
next
  case PlayBtnClick
  assume a: "timer_inv st"
  have 1: "timer_inv ((stopRadarAuto st)\<lparr>rainAutoToggle := False, playBtnText := icon_play\<rparr>)"
    using timer_inv_stop[OF a] by (simp add: timer_inv_def)
  have "timer_inv (st\<lparr>rainAutoToggle := True\<rparr>)" using a by (simp add: timer_inv_def)
  from timer_inv_start[OF this]
  have 2: "timer_inv ((startRadarAuto (st\<lparr>rainAutoToggle := True\<rparr>))\<lparr>playBtnText := icon_pause\<rparr>)"
    by (simp add: timer_inv_def)
  show ?thesis using PlayBtnClick a 1 2 by (simp add: handle_def playBtnClick_def)
next
  case (RainAutoToggleChange b)
  assume a: "timer_inv st"
  then have "timer_inv (st\<lparr>rainAutoToggle := b'\<rparr>)" for b' by (simp add: timer_inv_def)
  from timer_inv_start[OF this] timer_inv_stop[OF this] show ?thesis using RainAutoToggleChange a
    by (simp add: handle_def rainAutoToggleChange_def Let_def)
next
  case (RadarToggleChange b)
  assume "timer_inv st"
  then show ?thesis using RadarToggleChange
    by (simp add: handle_def radarToggleChange_def Let_def timer_inv_def split: option.splits)
next
  case (IntervalFired h)
  assume a: "timer_inv st"
  then have "timer_inv (st\<lparr>frameIndex := fi, sliderValue := sv\<rparr>)" for fi sv
    by (simp add: timer_inv_def)
  then show ?thesis using IntervalFired a
    by (simp add: handle_def radarTick_def Let_def timer_inv_show)
qed

lemma timer_inv_run: "timer_inv (run page evs)"
proof (induction evs rule: rev_induct)
  case Nil
  show ?case by (simp add: run_def script_start_def timer_inv_def)
next
  case (snoc ev evs)
  then show ?case by (simp add: run_def timer_inv_handle)
qed

lemma run_demo:
  "anim (run demo_page [InitMap, CatalogSettled demo_catalog, PlayBtnClick]) = Some 1"
  by (simp add: run_def script_start_def demo_page_def demo_catalog_def handle_def initMap_def
      loadRadarFrames_begin_def startRadarAuto_def loadRadarFrames_resume_def
      loadRadarFrames_try_def Let_def playBtnClick_def show_fields)

text \<open>
  C2: \<^verbatim>\<open>startRadarAuto\<close> does nothing while the timer handle is set, so calling it
  twice in a row leaves the state that one call leaves; in every reachable state at most
  one interval is live, and one is live exactly when the handle \<^verbatim>\<open>anim\<close> is not
  null.
\<close>

theorem startRadarAuto_single_timer:
  "(anim st \<noteq> None \<longrightarrow> startRadarAuto st = st)
   \<and> startRadarAuto (startRadarAuto st) = startRadarAuto st
   \<and> card (timers (run page evs)) \<le> 1
   \<and> (timers (run page evs) \<noteq> {} \<longleftrightarrow> anim (run page evs) \<noteq> None)
   \<and> timers (startRadarAuto (run page evs)) = (case anim (startRadarAuto (run page evs)) of None \<Rightarrow> {} | Some h \<Rightarrow> {h})"
proof -
  have 1: "anim st \<noteq> None \<longrightarrow> startRadarAuto st = st"
    by (simp add: startRadarAuto_def)
  have inv: "timer_inv (run page evs)" by (rule timer_inv_run)
  then have 3: "card (timers (run page evs)) \<le> 1"
    by (simp add: timer_inv_def split: option.splits)
  from inv have 4: "timers (run page evs) \<noteq> {} \<longleftrightarrow> anim (run page evs) \<noteq> None"
    by (auto simp: timer_inv_def split: option.splits)
  from timer_inv_start[OF inv] have 5: "timers (startRadarAuto (run page evs)) =
      (case anim (startRadarAuto (run page evs)) of None \<Rightarrow> {} | Some h \<Rightarrow> {h})"
    by (simp add: timer_inv_def)
  from 1 startRadarAuto_twice 3 4 5 show ?thesis by blast
qed

theorem startRadarAuto_single_timer_witness:
  "anim (run demo_page [InitMap, CatalogSettled demo_catalog, PlayBtnClick]) \<noteq> None
   \<and> startRadarAuto (run demo_page [InitMap, CatalogSettled demo_catalog, PlayBtnClick])
       = run demo_page [InitMap, CatalogSettled demo_catalog, PlayBtnClick]"
  using startRadarAuto_single_timer[of "run demo_page [InitMap, CatalogSettled demo_catalog, PlayBtnClick]"]
    run_demo by simp















section \<open>Properties of the vector field sampler\<close>

subsection \<open>Rounding to the nearest double\<close>

lemma round_even_error: "\<bar>of_int (round_even r) - r\<bar> \<le> 1 / 2"
proof -
  define f where "f = r - of_int \<lfloor>r\<rfloor>"
  have f: "0 \<le> f" "f < 1" unfolding f_def by linarith+
  have r: "r = of_int \<lfloor>r\<rfloor> + f" by (simp add: f_def)
  consider "f < 1 / 2" | "f > 1 / 2" | "f = 1 / 2" by linarith
  then show ?thesis
  proof cases
    case 1
    then have "round_even r = \<lfloor>r\<rfloor>" by (simp add: round_even_def f_def)
    moreover have "r - of_int \<lfloor>r\<rfloor> = f" by (simp add: f_def)
    ultimately show ?thesis using 1 f by (simp add: abs_if)
  next
    case 2
    then have "round_even r = \<lfloor>r\<rfloor> + 1" by (simp add: round_even_def f_def)
    moreover have "r - of_int \<lfloor>r\<rfloor> = f" by (simp add: f_def)
    ultimately show ?thesis using 2 f by (simp add: abs_if)
  next
    case 3
    then have "round_even r = \<lfloor>r\<rfloor> \<or> round_even r = \<lfloor>r\<rfloor> + 1"
      by (simp add: round_even_def f_def)
    moreover have "r = of_int \<lfloor>r\<rfloor> + 1 / 2" using r 3 by simp
    ultimately show ?thesis by (auto simp: abs_if)
  qed
qed

lemma round_even_eqI:
  assumes "\<bar>r - of_int n\<bar> < 1 / 2"
  shows "round_even r = n"
proof (cases "of_int n \<le> r")
  case True
  with assms have lt: "r - of_int n < 1 / 2" by simp
  with True have "\<lfloor>r\<rfloor> = n" by (intro floor_unique) auto
  with lt show ?thesis unfolding round_even_def by simp
next
  case False
  with assms have lt: "of_int n - r < 1 / 2" by simp
  with False have f: "\<lfloor>r\<rfloor> = n - 1" by (intro floor_unique) auto
  have "r - of_int (n - 1) > 1 / 2" using lt by simp
  then show ?thesis unfolding round_even_def f by simp
qed

lemma two_powr_int_diff: "(2::real) powr of_int (52 - int j) = 2 ^ 52 / 2 ^ j"
proof -
  have "(2::real) powr of_int (52 - int j) = 2 powr (52 - real j)" by simp
  also have "\<dots> = 2 powr 52 / 2 powr real j" by (rule powr_diff)
  also have "\<dots> = 2 ^ 52 / 2 ^ j" by (simp add: powr_realpow)
  finally show ?thesis .
qed

lemma fl_eqI:
  assumes "a \<noteq> 0" and "2 ^ 52 \<le> \<bar>a\<bar> * 2 ^ j" and "\<bar>a\<bar> * 2 ^ j < 2 ^ 53"
    and "\<bar>a * 2 ^ j - of_int n\<bar> < 1 / 2"
  shows "fl a = of_int n / 2 ^ j"
proof -
  have lo: "(2::real) powr of_int (52 - int j) \<le> \<bar>a\<bar>"
    unfolding two_powr_int_diff using assms(2) by (simp add: field_simps)
  have "(2::real) powr (of_int (52 - int j) + 1) = 2 powr of_int (52 - int j) * 2 powr 1"
    by (rule powr_add)
  then have "(2::real) powr (of_int (52 - int j) + 1) = 2 powr of_int (52 - int j) * 2"
    by simp
  then have h2: "(2::real) powr (of_int (52 - int j) + 1) = 2 ^ 53 / 2 ^ j"
    unfolding two_powr_int_diff by simp
  have h1: "\<bar>a\<bar> < 2 ^ 53 / 2 ^ j" using assms(3) by (simp add: field_simps)
  have hi: "\<bar>a\<bar> < (2::real) powr (of_int (52 - int j) + 1)"
    unfolding h2 by (rule h1)
  have k: "\<lfloor>log 2 \<bar>a\<bar>\<rfloor> = 52 - int j"
    using assms(1) lo hi by (subst floor_log_eq_powr_iff) auto
  have p: "(2::real) powr - real j = 1 / 2 ^ j"
    by (simp add: powr_minus powr_realpow inverse_eq_divide)
  have "round_even (a / (1 / 2 ^ j)) = n"
    using assms(4) by (intro round_even_eqI) simp
  then show ?thesis
    using assms(1) by (simp add: fl_def Let_def k p)
qed

lemma fl_error: "\<bar>fl a - a\<bar> \<le> \<bar>a\<bar> / 2 ^ 53"
proof (cases "a = 0")
  case True
  then show ?thesis by (simp add: fl_def)
next
  case False
  define k where "k = \<lfloor>log 2 \<bar>a\<bar>\<rfloor>"
  define p where "p = (2::real) powr of_int (k - 52)"
  define m where "m = round_even (a / p)"
  have lb: "2 powr of_int k \<le> \<bar>a\<bar>"
    using False floor_log_eq_powr_iff[of "\<bar>a\<bar>" 2 k] by (simp add: k_def)
  have p0: "0 < p" by (simp add: p_def)
  have pk: "p = 2 powr of_int k / 2 ^ 52"
    by (simp add: p_def powr_diff)
  have fa: "fl a = of_int m * p"
    using False by (simp add: fl_def Let_def k_def p_def m_def)
  have "\<bar>of_int m - a / p\<bar> \<le> 1 / 2" unfolding m_def by (rule round_even_error)
  then have "\<bar>of_int m - a / p\<bar> * p \<le> 1 / 2 * p" using p0 by (intro mult_right_mono) auto
  moreover have "\<bar>of_int m - a / p\<bar> * p = \<bar>of_int m * p - a\<bar>"
    using p0 by (simp add: abs_mult[symmetric] field_simps del: abs_mult)
  ultimately have "\<bar>fl a - a\<bar> \<le> p / 2" by (simp add: fa)
  also have "p / 2 = 2 powr of_int k / 2 ^ 53" by (simp add: pk)
  also have "\<dots> \<le> \<bar>a\<bar> / 2 ^ 53" using lb by (simp add: divide_right_mono)
  finally show ?thesis .
qed

lemma fl_negative:
  assumes "a < 0"
  shows "a * (1 + 1 / 2 ^ 53) \<le> fl a \<and> fl a \<le> a * (1 - 1 / 2 ^ 53)"
proof -
  from fl_error[of a] assms have "\<bar>fl a - a\<bar> \<le> - a / 2 ^ 53" by simp
  then show ?thesis by (auto simp: abs_le_iff field_simps)
qed

lemma fl_270: "fl 270 = 270"
proof -
  have "fl 270 = of_int 4749890231992320 / 2 ^ 44"
    by (rule fl_eqI) simp_all
  then show ?thesis by simp
qed

lemma fl_270_pi: "fl (270 * Math_PI) = 7461110129092495 / 2 ^ 43"
proof -
  have "fl (270 * Math_PI) = of_int 7461110129092495 / 2 ^ 43"
    by (rule fl_eqI) (simp_all add: Math_PI_def)
  then show ?thesis by simp
qed

lemma fl_toRad: "fl (7461110129092495 / 2 ^ 43 / 180) = toRad270"
proof -
  have "fl (7461110129092495 / 2 ^ 43 / 180) = of_int 5305678314021330 / 2 ^ 50"
    by (rule fl_eqI) simp_all
  then show ?thesis by (simp add: toRad270_def)
qed

lemma fl_minus_10: "fl (- 10) = - 10"
proof -
  have "fl (- 10) = of_int (- 5629499534213120) / 2 ^ 49"
    by (rule fl_eqI) simp_all
  then show ?thesis by simp
qed

subsection \<open>Sine and cosine of the double for 270 degrees\<close>

lemma trig_horner_unfold:
  "0 < k \<Longrightarrow> trig_horner k a z
     = 1 - z / (real (a + 1) * real (a + 2)) * trig_horner (k - 1) (a + 2) z"
  by (cases k) (simp_all add: trig_horner.simps)

lemma trig_horner_unfold':
  "0 < k \<Longrightarrow> k' = k - 1 \<Longrightarrow> b = a + 2 \<Longrightarrow> c = real (a + 1) * real (a + 2)
     \<Longrightarrow> trig_horner k a z = 1 - z / c * trig_horner k' b z"
  by (simp add: trig_horner_unfold)

lemma trig_horner_sum:
  "trig_horner k a z = (\<Sum>i<k. (- 1) ^ i * z ^ i * fact a / fact (a + 2 * i))"
proof (induction k arbitrary: a)
  case 0
  show ?case by (simp add: trig_horner.simps)
next
  case (Suc k)
  have fa2: "(fact (a + 2) :: real) = (real (a + 1) * real (a + 2)) * fact a"
    by (simp add: algebra_simps)
  have c0: "real (a + 1) * real (a + 2) \<noteq> 0" by simp
  have tm: "(- 1) ^ Suc i * z ^ Suc i * fact a / fact (a + 2 * Suc i)
      = - (z / (real (a + 1) * real (a + 2))) * ((- 1) ^ i * z ^ i * fact (a + 2) / fact (a + 2 + 2 * i))" for i
  proof -
    define c where "c = real (a + 1) * real (a + 2)"
    define F where "F = (fact (a + 2 + 2 * i) :: real)"
    have F0: "F \<noteq> 0" by (simp add: F_def)
    have idx: "a + 2 * Suc i = a + 2 + 2 * i" by simp
    have "- (z / c) * ((- 1) ^ i * z ^ i * (c * fact a) / F) = (- 1) ^ Suc i * z ^ Suc i * fact a / F"
      using c0 F0 unfolding c_def[symmetric] by (simp add: field_simps)
    then show ?thesis unfolding idx fa2 c_def F_def by simp
  qed
  have "(\<Sum>i<Suc k. (- 1) ^ i * z ^ i * fact a / fact (a + 2 * i))
      = 1 + (\<Sum>i<k. (- 1) ^ Suc i * z ^ Suc i * fact a / fact (a + 2 * Suc i))"
    by (subst sum.lessThan_Suc_shift) simp
  also have "(\<Sum>i<k. (- 1) ^ Suc i * z ^ Suc i * fact a / fact (a + 2 * Suc i))
      = (\<Sum>i<k. - (z / (real (a + 1) * real (a + 2))) * ((- 1) ^ i * z ^ i * fact (a + 2) / fact (a + 2 + 2 * i)))"
    by (rule sum.cong) (simp_all only: tm)
  also have "\<dots> = - (z / (real (a + 1) * real (a + 2))) * trig_horner k (a + 2) z"
    by (simp add: Suc.IH sum_distrib_left)
  finally show ?case by (simp add: trig_horner.simps)
qed

lemma cos_coeff_sum: "(\<Sum>m<2 * k. cos_coeff m * arg ^ m) = trig_horner k 0 (arg\<^sup>2)"
proof -
  have "(\<Sum>m<2 * k. cos_coeff m * arg ^ m) = (\<Sum>i<k. (- 1) ^ i * (arg\<^sup>2) ^ i / fact (2 * i))"
  proof (induction k)
    case 0
    show ?case by simp
  next
    case (Suc k)
    then show ?case by (simp add: cos_coeff_def power_mult [symmetric])
  qed
  then show ?thesis by (simp add: trig_horner_sum)
qed

lemma sin_coeff_sum: "(\<Sum>m<2 * k. sin_coeff m * arg ^ m) = arg * trig_horner k 1 (arg\<^sup>2)"
proof -
  have "(\<Sum>m<2 * k. sin_coeff m * arg ^ m) = (\<Sum>i<k. arg * ((- 1) ^ i * (arg\<^sup>2) ^ i / fact (1 + 2 * i)))"
  proof (induction k)
    case 0
    show ?case by simp
  next
    case (Suc k)
    then show ?case by (simp add: sin_coeff_def power_mult [symmetric])
  qed
  then show ?thesis by (simp add: trig_horner_sum sum_distrib_left)
qed

lemma zz_eq: "toRad270\<^sup>2 = zz"
  by (simp add: toRad270_def zz_def power2_eq_square)

lemma horner_step:
  fixes q :: real
  assumes "0 \<le> q" "lo \<le> h" "h \<le> hi" "l \<le> 1 - q * hi" "1 - q * lo \<le> r"
  shows "l \<le> 1 - q * h \<and> 1 - q * h \<le> r"
proof -
  have "q * h \<le> q * hi" "q * lo \<le> q * h"
    using assms(1-3) by (simp_all add: mult_left_mono)
  with assms(4,5) show ?thesis by linarith
qed

lemma cos_horner_270:
  "- (18369701987210297658398015271854989 / 10 ^ 50) \<le> trig_horner 28 0 zz \<and> trig_horner 28 0 zz \<le> - (18369701987210297658398015271854819 / 10 ^ 50)"
proof -
  have c_27: "100000000000000000000000000000000000000000000000000 / 10 ^ 50 \<le> trig_horner 1 54 zz \<and> trig_horner 1 54 zz \<le> 100000000000000000000000000000000000000000000000000 / 10 ^ 50"
    by (simp add: trig_horner.simps)
  have c_26: "99224087704316874382911461201952814102941601113290 / 10 ^ 50 \<le> trig_horner 2 52 zz \<and> trig_horner 2 52 zz \<le> 99224087704316874382911461201952814102941601113293 / 10 ^ 50"
  proof -
    have u: "trig_horner 2 52 zz = 1 - zz / 2862 * trig_horner 1 54 zz"
      by (rule trig_horner_unfold') simp_all
    have q: "0 \<le> zz / 2862" by (simp add: zz_def)
    have l: "99224087704316874382911461201952814102941601113290 / 10 ^ 50 \<le> 1 - zz / 2862 * (100000000000000000000000000000000000000000000000000 / 10 ^ 50)" by (simp add: zz_def)
    have r: "1 - zz / 2862 * (100000000000000000000000000000000000000000000000000 / 10 ^ 50) \<le> 99224087704316874382911461201952814102941601113293 / 10 ^ 50" by (simp add: zz_def)
    from horner_step[OF q conjunct1[OF c_27] conjunct2[OF c_27] l r] show ?thesis unfolding u .
  qed
  have c_25: "99169143812754013918673023680318500806150509260011 / 10 ^ 50 \<le> trig_horner 3 50 zz \<and> trig_horner 3 50 zz \<le> 99169143812754013918673023680318500806150509260014 / 10 ^ 50"
  proof -
    have u: "trig_horner 3 50 zz = 1 - zz / 2652 * trig_horner 2 52 zz"
      by (rule trig_horner_unfold') simp_all
    have q: "0 \<le> zz / 2652" by (simp add: zz_def)
    have l: "99169143812754013918673023680318500806150509260011 / 10 ^ 50 \<le> 1 - zz / 2652 * (99224087704316874382911461201952814102941601113293 / 10 ^ 50)" by (simp add: zz_def)
    have r: "1 - zz / 2652 * (99224087704316874382911461201952814102941601113290 / 10 ^ 50) \<le> 99169143812754013918673023680318500806150509260014 / 10 ^ 50" by (simp add: zz_def)
    from horner_step[OF q conjunct1[OF c_26] conjunct2[OF c_26] l r] show ?thesis unfolding u .
  qed
  have c_24: "99101138575098001602647885437184080027809975640603 / 10 ^ 50 \<le> trig_horner 4 48 zz \<and> trig_horner 4 48 zz \<le> 99101138575098001602647885437184080027809975640606 / 10 ^ 50"
  proof -
    have u: "trig_horner 4 48 zz = 1 - zz / 2450 * trig_horner 3 50 zz"
      by (rule trig_horner_unfold') simp_all
    have q: "0 \<le> zz / 2450" by (simp add: zz_def)
    have l: "99101138575098001602647885437184080027809975640603 / 10 ^ 50 \<le> 1 - zz / 2450 * (99169143812754013918673023680318500806150509260014 / 10 ^ 50)" by (simp add: zz_def)
    have r: "1 - zz / 2450 * (99169143812754013918673023680318500806150509260011 / 10 ^ 50) \<le> 99101138575098001602647885437184080027809975640606 / 10 ^ 50" by (simp add: zz_def)
    from horner_step[OF q conjunct1[OF c_25] conjunct2[OF c_25] l r] show ?thesis unfolding u .
  qed
  have c_23: "99024512267187080880748059360037419273251592683740 / 10 ^ 50 \<le> trig_horner 5 46 zz \<and> trig_horner 5 46 zz \<le> 99024512267187080880748059360037419273251592683743 / 10 ^ 50"
  proof -
    have u: "trig_horner 5 46 zz = 1 - zz / 2256 * trig_horner 4 48 zz"
      by (rule trig_horner_unfold') simp_all
    have q: "0 \<le> zz / 2256" by (simp add: zz_def)
    have l: "99024512267187080880748059360037419273251592683740 / 10 ^ 50 \<le> 1 - zz / 2256 * (99101138575098001602647885437184080027809975640606 / 10 ^ 50)" by (simp add: zz_def)
    have r: "1 - zz / 2256 * (99101138575098001602647885437184080027809975640603 / 10 ^ 50) \<le> 99024512267187080880748059360037419273251592683743 / 10 ^ 50" by (simp add: zz_def)
    from horner_step[OF q conjunct1[OF c_24] conjunct2[OF c_24] l r] show ?thesis unfolding u .
  qed
  have c_22: "98937681780339177479563360795664760257295214262037 / 10 ^ 50 \<le> trig_horner 6 44 zz \<and> trig_horner 6 44 zz \<le> 98937681780339177479563360795664760257295214262040 / 10 ^ 50"
  proof -
    have u: "trig_horner 6 44 zz = 1 - zz / 2070 * trig_horner 5 46 zz"
      by (rule trig_horner_unfold') simp_all
    have q: "0 \<le> zz / 2070" by (simp add: zz_def)
    have l: "98937681780339177479563360795664760257295214262037 / 10 ^ 50 \<le> 1 - zz / 2070 * (99024512267187080880748059360037419273251592683743 / 10 ^ 50)" by (simp add: zz_def)
    have r: "1 - zz / 2070 * (99024512267187080880748059360037419273251592683740 / 10 ^ 50) \<le> 98937681780339177479563360795664760257295214262040 / 10 ^ 50" by (simp add: zz_def)
    from horner_step[OF q conjunct1[OF c_23] conjunct2[OF c_23] l r] show ?thesis unfolding u .
  qed
  have c_21: "98838757661760659979107862455550649795182561330716 / 10 ^ 50 \<le> trig_horner 7 42 zz \<and> trig_horner 7 42 zz \<le> 98838757661760659979107862455550649795182561330719 / 10 ^ 50"
  proof -
    have u: "trig_horner 7 42 zz = 1 - zz / 1892 * trig_horner 6 44 zz"
      by (rule trig_horner_unfold') simp_all
    have q: "0 \<le> zz / 1892" by (simp add: zz_def)
    have l: "98838757661760659979107862455550649795182561330716 / 10 ^ 50 \<le> 1 - zz / 1892 * (98937681780339177479563360795664760257295214262040 / 10 ^ 50)" by (simp add: zz_def)
    have r: "1 - zz / 1892 * (98937681780339177479563360795664760257295214262037 / 10 ^ 50) \<le> 98838757661760659979107862455550649795182561330719 / 10 ^ 50" by (simp add: zz_def)
    from horner_step[OF q conjunct1[OF c_22] conjunct2[OF c_22] l r] show ?thesis unfolding u .
  qed
  have c_20: "98725392720884079924272015481765350910227422715961 / 10 ^ 50 \<le> trig_horner 8 40 zz \<and> trig_horner 8 40 zz \<le> 98725392720884079924272015481765350910227422715964 / 10 ^ 50"
  proof -
    have u: "trig_horner 8 40 zz = 1 - zz / 1722 * trig_horner 7 42 zz"
      by (rule trig_horner_unfold') simp_all
    have q: "0 \<le> zz / 1722" by (simp add: zz_def)
    have l: "98725392720884079924272015481765350910227422715961 / 10 ^ 50 \<le> 1 - zz / 1722 * (98838757661760659979107862455550649795182561330719 / 10 ^ 50)" by (simp add: zz_def)
    have r: "1 - zz / 1722 * (98838757661760659979107862455550649795182561330716 / 10 ^ 50) \<le> 98725392720884079924272015481765350910227422715964 / 10 ^ 50" by (simp add: zz_def)
    from horner_step[OF q conjunct1[OF c_21] conjunct2[OF c_21] l r] show ?thesis unfolding u .
  qed
  have c_19: "98594643407936568122207494429534615089688758626360 / 10 ^ 50 \<le> trig_horner 9 38 zz \<and> trig_horner 9 38 zz \<le> 98594643407936568122207494429534615089688758626363 / 10 ^ 50"
  proof -
    have u: "trig_horner 9 38 zz = 1 - zz / 1560 * trig_horner 8 40 zz"
      by (rule trig_horner_unfold') simp_all
    have q: "0 \<le> zz / 1560" by (simp add: zz_def)
    have l: "98594643407936568122207494429534615089688758626360 / 10 ^ 50 \<le> 1 - zz / 1560 * (98725392720884079924272015481765350910227422715964 / 10 ^ 50)" by (simp add: zz_def)
    have r: "1 - zz / 1560 * (98725392720884079924272015481765350910227422715961 / 10 ^ 50) \<le> 98594643407936568122207494429534615089688758626363 / 10 ^ 50" by (simp add: zz_def)
    from horner_step[OF q conjunct1[OF c_20] conjunct2[OF c_20] l r] show ?thesis unfolding u .
  qed
  have c_18: "98442778958299207082635911109190803481202909310719 / 10 ^ 50 \<le> trig_horner 10 36 zz \<and> trig_horner 10 36 zz \<le> 98442778958299207082635911109190803481202909310723 / 10 ^ 50"
  proof -
    have u: "trig_horner 10 36 zz = 1 - zz / 1406 * trig_horner 9 38 zz"
      by (rule trig_horner_unfold') simp_all
    have q: "0 \<le> zz / 1406" by (simp add: zz_def)
    have l: "98442778958299207082635911109190803481202909310719 / 10 ^ 50 \<le> 1 - zz / 1406 * (98594643407936568122207494429534615089688758626363 / 10 ^ 50)" by (simp add: zz_def)
    have r: "1 - zz / 1406 * (98594643407936568122207494429534615089688758626360 / 10 ^ 50) \<le> 98442778958299207082635911109190803481202909310723 / 10 ^ 50" by (simp add: zz_def)
    from horner_step[OF q conjunct1[OF c_19] conjunct2[OF c_19] l r] show ?thesis unfolding u .
  qed
  have c_17: "98265015563460184491587605513325159074757797631270 / 10 ^ 50 \<le> trig_horner 11 34 zz \<and> trig_horner 11 34 zz \<le> 98265015563460184491587605513325159074757797631273 / 10 ^ 50"
  proof -
    have u: "trig_horner 11 34 zz = 1 - zz / 1260 * trig_horner 10 36 zz"
      by (rule trig_horner_unfold') simp_all
    have q: "0 \<le> zz / 1260" by (simp add: zz_def)
    have l: "98265015563460184491587605513325159074757797631270 / 10 ^ 50 \<le> 1 - zz / 1260 * (98442778958299207082635911109190803481202909310723 / 10 ^ 50)" by (simp add: zz_def)
    have r: "1 - zz / 1260 * (98442778958299207082635911109190803481202909310719 / 10 ^ 50) \<le> 98265015563460184491587605513325159074757797631273 / 10 ^ 50" by (simp add: zz_def)
    from horner_step[OF q conjunct1[OF c_18] conjunct2[OF c_18] l r] show ?thesis unfolding u .
  qed
  have c_16: "98055140046634543685618048234675700159367075768242 / 10 ^ 50 \<le> trig_horner 12 32 zz \<and> trig_horner 12 32 zz \<le> 98055140046634543685618048234675700159367075768245 / 10 ^ 50"
  proof -
    have u: "trig_horner 12 32 zz = 1 - zz / 1122 * trig_horner 11 34 zz"
      by (rule trig_horner_unfold') simp_all
    have q: "0 \<le> zz / 1122" by (simp add: zz_def)
    have l: "98055140046634543685618048234675700159367075768242 / 10 ^ 50 \<le> 1 - zz / 1122 * (98265015563460184491587605513325159074757797631273 / 10 ^ 50)" by (simp add: zz_def)
    have r: "1 - zz / 1122 * (98265015563460184491587605513325159074757797631270 / 10 ^ 50) \<le> 98055140046634543685618048234675700159367075768245 / 10 ^ 50" by (simp add: zz_def)
    from horner_step[OF q conjunct1[OF c_17] conjunct2[OF c_17] l r] show ?thesis unfolding u .
  qed
  have c_15: "97804967496022359197003867162276332404568408383190 / 10 ^ 50 \<le> trig_horner 13 30 zz \<and> trig_horner 13 30 zz \<le> 97804967496022359197003867162276332404568408383193 / 10 ^ 50"
  proof -
    have u: "trig_horner 13 30 zz = 1 - zz / 992 * trig_horner 12 32 zz"
      by (rule trig_horner_unfold') simp_all
    have q: "0 \<le> zz / 992" by (simp add: zz_def)
    have l: "97804967496022359197003867162276332404568408383190 / 10 ^ 50 \<le> 1 - zz / 992 * (98055140046634543685618048234675700159367075768245 / 10 ^ 50)" by (simp add: zz_def)
    have r: "1 - zz / 992 * (98055140046634543685618048234675700159367075768242 / 10 ^ 50) \<le> 97804967496022359197003867162276332404568408383193 / 10 ^ 50" by (simp add: zz_def)
    from horner_step[OF q conjunct1[OF c_16] conjunct2[OF c_16] l r] show ?thesis unfolding u .
  qed
  have c_14: "97503543954360834824453631462099483954174030345574 / 10 ^ 50 \<le> trig_horner 14 28 zz \<and> trig_horner 14 28 zz \<le> 97503543954360834824453631462099483954174030345577 / 10 ^ 50"
  proof -
    have u: "trig_horner 14 28 zz = 1 - zz / 870 * trig_horner 13 30 zz"
      by (rule trig_horner_unfold') simp_all
    have q: "0 \<le> zz / 870" by (simp add: zz_def)
    have l: "97503543954360834824453631462099483954174030345574 / 10 ^ 50 \<le> 1 - zz / 870 * (97804967496022359197003867162276332404568408383193 / 10 ^ 50)" by (simp add: zz_def)
    have r: "1 - zz / 870 * (97804967496022359197003867162276332404568408383190 / 10 ^ 50) \<le> 97503543954360834824453631462099483954174030345577 / 10 ^ 50" by (simp add: zz_def)
    from horner_step[OF q conjunct1[OF c_15] conjunct2[OF c_15] l r] show ?thesis unfolding u .
  qed
  have c_13: "97135948194839972185955930425444593979127245058517 / 10 ^ 50 \<le> trig_horner 15 26 zz \<and> trig_horner 15 26 zz \<le> 97135948194839972185955930425444593979127245058520 / 10 ^ 50"
  proof -
    have u: "trig_horner 15 26 zz = 1 - zz / 756 * trig_horner 14 28 zz"
      by (rule trig_horner_unfold') simp_all
    have q: "0 \<le> zz / 756" by (simp add: zz_def)
    have l: "97135948194839972185955930425444593979127245058517 / 10 ^ 50 \<le> 1 - zz / 756 * (97503543954360834824453631462099483954174030345577 / 10 ^ 50)" by (simp add: zz_def)
    have r: "1 - zz / 756 * (97503543954360834824453631462099483954174030345574 / 10 ^ 50) \<le> 97135948194839972185955930425444593979127245058520 / 10 ^ 50" by (simp add: zz_def)
    from horner_step[OF q conjunct1[OF c_14] conjunct2[OF c_14] l r] show ?thesis unfolding u .
  qed
  have c_12: "96681445986049990734755152447296252184965168067915 / 10 ^ 50 \<le> trig_horner 16 24 zz \<and> trig_horner 16 24 zz \<le> 96681445986049990734755152447296252184965168067918 / 10 ^ 50"
  proof -
    have u: "trig_horner 16 24 zz = 1 - zz / 650 * trig_horner 15 26 zz"
      by (rule trig_horner_unfold') simp_all
    have q: "0 \<le> zz / 650" by (simp add: zz_def)
    have l: "96681445986049990734755152447296252184965168067915 / 10 ^ 50 \<le> 1 - zz / 650 * (97135948194839972185955930425444593979127245058520 / 10 ^ 50)" by (simp add: zz_def)
    have r: "1 - zz / 650 * (97135948194839972185955930425444593979127245058517 / 10 ^ 50) \<le> 96681445986049990734755152447296252184965168067918 / 10 ^ 50" by (simp add: zz_def)
    from horner_step[OF q conjunct1[OF c_13] conjunct2[OF c_13] l r] show ?thesis unfolding u .
  qed
  have c_11: "96110566746708143943279845764014732206739803759309 / 10 ^ 50 \<le> trig_horner 17 22 zz \<and> trig_horner 17 22 zz \<le> 96110566746708143943279845764014732206739803759312 / 10 ^ 50"
  proof -
    have u: "trig_horner 17 22 zz = 1 - zz / 552 * trig_horner 16 24 zz"
      by (rule trig_horner_unfold') simp_all
    have q: "0 \<le> zz / 552" by (simp add: zz_def)
    have l: "96110566746708143943279845764014732206739803759309 / 10 ^ 50 \<le> 1 - zz / 552 * (96681445986049990734755152447296252184965168067918 / 10 ^ 50)" by (simp add: zz_def)
    have r: "1 - zz / 552 * (96681445986049990734755152447296252184965168067915 / 10 ^ 50) \<le> 96110566746708143943279845764014732206739803759312 / 10 ^ 50" by (simp add: zz_def)
    from horner_step[OF q conjunct1[OF c_12] conjunct2[OF c_12] l r] show ?thesis unfolding u .
  qed
  have c_10: "95380324971325471510043879793140012663425421452004 / 10 ^ 50 \<le> trig_horner 18 20 zz \<and> trig_horner 18 20 zz \<le> 95380324971325471510043879793140012663425421452007 / 10 ^ 50"
  proof -
    have u: "trig_horner 18 20 zz = 1 - zz / 462 * trig_horner 17 22 zz"
      by (rule trig_horner_unfold') simp_all
    have q: "0 \<le> zz / 462" by (simp add: zz_def)
    have l: "95380324971325471510043879793140012663425421452004 / 10 ^ 50 \<le> 1 - zz / 462 * (96110566746708143943279845764014732206739803759312 / 10 ^ 50)" by (simp add: zz_def)
    have r: "1 - zz / 462 * (96110566746708143943279845764014732206739803759309 / 10 ^ 50) \<le> 95380324971325471510043879793140012663425421452007 / 10 ^ 50" by (simp add: zz_def)
    from horner_step[OF q conjunct1[OF c_11] conjunct2[OF c_11] l r] show ?thesis unfolding u .
  qed
  have c_9: "94426121923665168764360554949978292459304545873231 / 10 ^ 50 \<le> trig_horner 19 18 zz \<and> trig_horner 19 18 zz \<le> 94426121923665168764360554949978292459304545873234 / 10 ^ 50"
  proof -
    have u: "trig_horner 19 18 zz = 1 - zz / 380 * trig_horner 18 20 zz"
      by (rule trig_horner_unfold') simp_all
    have q: "0 \<le> zz / 380" by (simp add: zz_def)
    have l: "94426121923665168764360554949978292459304545873231 / 10 ^ 50 \<le> 1 - zz / 380 * (95380324971325471510043879793140012663425421452007 / 10 ^ 50)" by (simp add: zz_def)
    have r: "1 - zz / 380 * (95380324971325471510043879793140012663425421452004 / 10 ^ 50) \<le> 94426121923665168764360554949978292459304545873234 / 10 ^ 50" by (simp add: zz_def)
    from horner_step[OF q conjunct1[OF c_10] conjunct2[OF c_10] l r] show ?thesis unfolding u .
  qed
  have c_8: "93147437731502896684807123173404262259596870588768 / 10 ^ 50 \<le> trig_horner 20 16 zz \<and> trig_horner 20 16 zz \<le> 93147437731502896684807123173404262259596870588772 / 10 ^ 50"
  proof -
    have u: "trig_horner 20 16 zz = 1 - zz / 306 * trig_horner 19 18 zz"
      by (rule trig_horner_unfold') simp_all
    have q: "0 \<le> zz / 306" by (simp add: zz_def)
    have l: "93147437731502896684807123173404262259596870588768 / 10 ^ 50 \<le> 1 - zz / 306 * (94426121923665168764360554949978292459304545873234 / 10 ^ 50)" by (simp add: zz_def)
    have r: "1 - zz / 306 * (94426121923665168764360554949978292459304545873231 / 10 ^ 50) \<le> 93147437731502896684807123173404262259596870588772 / 10 ^ 50" by (simp add: zz_def)
    from horner_step[OF q conjunct1[OF c_9] conjunct2[OF c_9] l r] show ?thesis unfolding u .
  qed
  have c_7: "91381296612015269685866114862619060107378375631902 / 10 ^ 50 \<le> trig_horner 21 14 zz \<and> trig_horner 21 14 zz \<le> 91381296612015269685866114862619060107378375631905 / 10 ^ 50"
  proof -
    have u: "trig_horner 21 14 zz = 1 - zz / 240 * trig_horner 20 16 zz"
      by (rule trig_horner_unfold') simp_all
    have q: "0 \<le> zz / 240" by (simp add: zz_def)
    have l: "91381296612015269685866114862619060107378375631902 / 10 ^ 50 \<le> 1 - zz / 240 * (93147437731502896684807123173404262259596870588772 / 10 ^ 50)" by (simp add: zz_def)
    have r: "1 - zz / 240 * (93147437731502896684807123173404262259596870588768 / 10 ^ 50) \<le> 91381296612015269685866114862619060107378375631905 / 10 ^ 50" by (simp add: zz_def)
    from horner_step[OF q conjunct1[OF c_8] conjunct2[OF c_8] l r] show ?thesis unfolding u .
  qed
  have c_6: "88850171394268157442616282293169823646489864568158 / 10 ^ 50 \<le> trig_horner 22 12 zz \<and> trig_horner 22 12 zz \<le> 88850171394268157442616282293169823646489864568161 / 10 ^ 50"
  proof -
    have u: "trig_horner 22 12 zz = 1 - zz / 182 * trig_horner 21 14 zz"
      by (rule trig_horner_unfold') simp_all
    have q: "0 \<le> zz / 182" by (simp add: zz_def)
    have l: "88850171394268157442616282293169823646489864568158 / 10 ^ 50 \<le> 1 - zz / 182 * (91381296612015269685866114862619060107378375631905 / 10 ^ 50)" by (simp add: zz_def)
    have r: "1 - zz / 182 * (91381296612015269685866114862619060107378375631902 / 10 ^ 50) \<le> 88850171394268157442616282293169823646489864568161 / 10 ^ 50" by (simp add: zz_def)
    from horner_step[OF q conjunct1[OF c_7] conjunct2[OF c_7] l r] show ?thesis unfolding u .
  qed
  have c_5: "85052567455163418640316741510454425398734953278020 / 10 ^ 50 \<le> trig_horner 23 10 zz \<and> trig_horner 23 10 zz \<le> 85052567455163418640316741510454425398734953278023 / 10 ^ 50"
  proof -
    have u: "trig_horner 23 10 zz = 1 - zz / 132 * trig_horner 22 12 zz"
      by (rule trig_horner_unfold') simp_all
    have q: "0 \<le> zz / 132" by (simp add: zz_def)
    have l: "85052567455163418640316741510454425398734953278020 / 10 ^ 50 \<le> 1 - zz / 132 * (88850171394268157442616282293169823646489864568161 / 10 ^ 50)" by (simp add: zz_def)
    have r: "1 - zz / 132 * (88850171394268157442616282293169823646489864568158 / 10 ^ 50) \<le> 85052567455163418640316741510454425398734953278023 / 10 ^ 50" by (simp add: zz_def)
    from horner_step[OF q conjunct1[OF c_6] conjunct2[OF c_6] l r] show ?thesis unfolding u .
  qed
  have c_4: "79014120148014240967561406139007721570184955109939 / 10 ^ 50 \<le> trig_horner 24 8 zz \<and> trig_horner 24 8 zz \<le> 79014120148014240967561406139007721570184955109943 / 10 ^ 50"
  proof -
    have u: "trig_horner 24 8 zz = 1 - zz / 90 * trig_horner 23 10 zz"
      by (rule trig_horner_unfold') simp_all
    have q: "0 \<le> zz / 90" by (simp add: zz_def)
    have l: "79014120148014240967561406139007721570184955109939 / 10 ^ 50 \<le> 1 - zz / 90 * (85052567455163418640316741510454425398734953278023 / 10 ^ 50)" by (simp add: zz_def)
    have r: "1 - zz / 90 * (85052567455163418640316741510454425398734953278020 / 10 ^ 50) \<le> 79014120148014240967561406139007721570184955109943 / 10 ^ 50" by (simp add: zz_def)
    from horner_step[OF q conjunct1[OF c_5] conjunct2[OF c_5] l r] show ?thesis unfolding u .
  qed
  have c_3: "68667218876565170075040275252279022391093786641297 / 10 ^ 50 \<le> trig_horner 25 6 zz \<and> trig_horner 25 6 zz \<le> 68667218876565170075040275252279022391093786641302 / 10 ^ 50"
  proof -
    have u: "trig_horner 25 6 zz = 1 - zz / 56 * trig_horner 24 8 zz"
      by (rule trig_horner_unfold') simp_all
    have q: "0 \<le> zz / 56" by (simp add: zz_def)
    have l: "68667218876565170075040275252279022391093786641297 / 10 ^ 50 \<le> 1 - zz / 56 * (79014120148014240967561406139007721570184955109943 / 10 ^ 50)" by (simp add: zz_def)
    have r: "1 - zz / 56 * (79014120148014240967561406139007721570184955109939 / 10 ^ 50) \<le> 68667218876565170075040275252279022391093786641302 / 10 ^ 50" by (simp add: zz_def)
    from horner_step[OF q conjunct1[OF c_4] conjunct2[OF c_4] l r] show ?thesis unfolding u .
  qed
  have c_2: "49171128577396462499747505676392819709791449628105 / 10 ^ 50 \<le> trig_horner 26 4 zz \<and> trig_horner 26 4 zz \<le> 49171128577396462499747505676392819709791449628111 / 10 ^ 50"
  proof -
    have u: "trig_horner 26 4 zz = 1 - zz / 30 * trig_horner 25 6 zz"
      by (rule trig_horner_unfold') simp_all
    have q: "0 \<le> zz / 30" by (simp add: zz_def)
    have l: "49171128577396462499747505676392819709791449628105 / 10 ^ 50 \<le> 1 - zz / 30 * (68667218876565170075040275252279022391093786641302 / 10 ^ 50)" by (simp add: zz_def)
    have r: "1 - zz / 30 * (68667218876565170075040275252279022391093786641297 / 10 ^ 50) \<le> 49171128577396462499747505676392819709791449628111 / 10 ^ 50" by (simp add: zz_def)
    from horner_step[OF q conjunct1[OF c_3] conjunct2[OF c_3] l r] show ?thesis unfolding u .
  qed
  have c_1: "9006327434874470929389033818926770505077323147354 / 10 ^ 50 \<le> trig_horner 27 2 zz \<and> trig_horner 27 2 zz \<le> 9006327434874470929389033818926770505077323147369 / 10 ^ 50"
  proof -
    have u: "trig_horner 27 2 zz = 1 - zz / 12 * trig_horner 26 4 zz"
      by (rule trig_horner_unfold') simp_all
    have q: "0 \<le> zz / 12" by (simp add: zz_def)
    have l: "9006327434874470929389033818926770505077323147354 / 10 ^ 50 \<le> 1 - zz / 12 * (49171128577396462499747505676392819709791449628111 / 10 ^ 50)" by (simp add: zz_def)
    have r: "1 - zz / 12 * (49171128577396462499747505676392819709791449628105 / 10 ^ 50) \<le> 9006327434874470929389033818926770505077323147369 / 10 ^ 50" by (simp add: zz_def)
    from horner_step[OF q conjunct1[OF c_2] conjunct2[OF c_2] l r] show ?thesis unfolding u .
  qed
  have c_0: "- (18369701987210297658398015271854989 / 10 ^ 50) \<le> trig_horner 28 0 zz \<and> trig_horner 28 0 zz \<le> - (18369701987210297658398015271854819 / 10 ^ 50)"
  proof -
    have u: "trig_horner 28 0 zz = 1 - zz / 2 * trig_horner 27 2 zz"
      by (rule trig_horner_unfold') simp_all
    have q: "0 \<le> zz / 2" by (simp add: zz_def)
    have l: "- (18369701987210297658398015271854989 / 10 ^ 50) \<le> 1 - zz / 2 * (9006327434874470929389033818926770505077323147369 / 10 ^ 50)" by (simp add: zz_def)
    have r: "1 - zz / 2 * (9006327434874470929389033818926770505077323147354 / 10 ^ 50) \<le> - (18369701987210297658398015271854819 / 10 ^ 50)" by (simp add: zz_def)
    from horner_step[OF q conjunct1[OF c_1] conjunct2[OF c_1] l r] show ?thesis unfolding u .
  qed
  show ?thesis by (rule c_0)
qed

lemma sin_horner_270:
  "- (2122065907891937892973810133215521 / 10 ^ 34) \<le> trig_horner 20 1 zz \<and> trig_horner 20 1 zz \<le> - (2122065907891937892973810133215489 / 10 ^ 34)"
proof -
  have s_19: "10000000000000000000000000000000000 / 10 ^ 34 \<le> trig_horner 1 39 zz \<and> trig_horner 1 39 zz \<le> 10000000000000000000000000000000000 / 10 ^ 34"
    by (simp add: trig_horner.simps)
  have s_18: "9850157827918683838319338863696959 / 10 ^ 34 \<le> trig_horner 2 37 zz \<and> trig_horner 2 37 zz \<le> 9850157827918683838319338863696962 / 10 ^ 34"
  proof -
    have u: "trig_horner 2 37 zz = 1 - zz / 1482 * trig_horner 1 39 zz"
      by (rule trig_horner_unfold') simp_all
    have q: "0 \<le> zz / 1482" by (simp add: zz_def)
    have l: "9850157827918683838319338863696959 / 10 ^ 34 \<le> 1 - zz / 1482 * (10000000000000000000000000000000000 / 10 ^ 34)" by (simp add: zz_def)
    have r: "1 - zz / 1482 * (10000000000000000000000000000000000 / 10 ^ 34) \<le> 9850157827918683838319338863696962 / 10 ^ 34" by (simp add: zz_def)
    from horner_step[OF q conjunct1[OF s_19] conjunct2[OF s_19] l r] show ?thesis unfolding u .
  qed
  have s_17: "9835781822550927311486106915691043 / 10 ^ 34 \<le> trig_horner 3 35 zz \<and> trig_horner 3 35 zz \<le> 9835781822550927311486106915691046 / 10 ^ 34"
  proof -
    have u: "trig_horner 3 35 zz = 1 - zz / 1332 * trig_horner 2 37 zz"
      by (rule trig_horner_unfold') simp_all
    have q: "0 \<le> zz / 1332" by (simp add: zz_def)
    have l: "9835781822550927311486106915691043 / 10 ^ 34 \<le> 1 - zz / 1332 * (9850157827918683838319338863696962 / 10 ^ 34)" by (simp add: zz_def)
    have r: "1 - zz / 1332 * (9850157827918683838319338863696959 / 10 ^ 34) \<le> 9835781822550927311486106915691046 / 10 ^ 34" by (simp add: zz_def)
    from horner_step[OF q conjunct1[OF s_18] conjunct2[OF s_18] l r] show ?thesis unfolding u .
  qed
  have s_16: "9816454310908397050849757262862832 / 10 ^ 34 \<le> trig_horner 4 33 zz \<and> trig_horner 4 33 zz \<le> 9816454310908397050849757262862835 / 10 ^ 34"
  proof -
    have u: "trig_horner 4 33 zz = 1 - zz / 1190 * trig_horner 3 35 zz"
      by (rule trig_horner_unfold') simp_all
    have q: "0 \<le> zz / 1190" by (simp add: zz_def)
    have l: "9816454310908397050849757262862832 / 10 ^ 34 \<le> 1 - zz / 1190 * (9835781822550927311486106915691046 / 10 ^ 34)" by (simp add: zz_def)
    have r: "1 - zz / 1190 * (9835781822550927311486106915691043 / 10 ^ 34) \<le> 9816454310908397050849757262862835 / 10 ^ 34" by (simp add: zz_def)
    from horner_step[OF q conjunct1[OF s_17] conjunct2[OF s_17] l r] show ?thesis unfolding u .
  qed
  have s_15: "9793569913345097766150823888775191 / 10 ^ 34 \<le> trig_horner 5 31 zz \<and> trig_horner 5 31 zz \<le> 9793569913345097766150823888775194 / 10 ^ 34"
  proof -
    have u: "trig_horner 5 31 zz = 1 - zz / 1056 * trig_horner 4 33 zz"
      by (rule trig_horner_unfold') simp_all
    have q: "0 \<le> zz / 1056" by (simp add: zz_def)
    have l: "9793569913345097766150823888775191 / 10 ^ 34 \<le> 1 - zz / 1056 * (9816454310908397050849757262862835 / 10 ^ 34)" by (simp add: zz_def)
    have r: "1 - zz / 1056 * (9816454310908397050849757262862832 / 10 ^ 34) \<le> 9793569913345097766150823888775194 / 10 ^ 34" by (simp add: zz_def)
    from horner_step[OF q conjunct1[OF s_16] conjunct2[OF s_16] l r] show ?thesis unfolding u .
  qed
  have s_14: "9766148401485982827686326744584833 / 10 ^ 34 \<le> trig_horner 6 29 zz \<and> trig_horner 6 29 zz \<le> 9766148401485982827686326744584836 / 10 ^ 34"
  proof -
    have u: "trig_horner 6 29 zz = 1 - zz / 930 * trig_horner 5 31 zz"
      by (rule trig_horner_unfold') simp_all
    have q: "0 \<le> zz / 930" by (simp add: zz_def)
    have l: "9766148401485982827686326744584833 / 10 ^ 34 \<le> 1 - zz / 930 * (9793569913345097766150823888775194 / 10 ^ 34)" by (simp add: zz_def)
    have r: "1 - zz / 930 * (9793569913345097766150823888775191 / 10 ^ 34) \<le> 9766148401485982827686326744584836 / 10 ^ 34" by (simp add: zz_def)
    from horner_step[OF q conjunct1[OF s_15] conjunct2[OF s_15] l r] show ?thesis unfolding u .
  qed
  have s_13: "9732914965762013338157874631248557 / 10 ^ 34 \<le> trig_horner 7 27 zz \<and> trig_horner 7 27 zz \<le> 9732914965762013338157874631248560 / 10 ^ 34"
  proof -
    have u: "trig_horner 7 27 zz = 1 - zz / 812 * trig_horner 6 29 zz"
      by (rule trig_horner_unfold') simp_all
    have q: "0 \<le> zz / 812" by (simp add: zz_def)
    have l: "9732914965762013338157874631248557 / 10 ^ 34 \<le> 1 - zz / 812 * (9766148401485982827686326744584836 / 10 ^ 34)" by (simp add: zz_def)
    have r: "1 - zz / 812 * (9766148401485982827686326744584833 / 10 ^ 34) \<le> 9732914965762013338157874631248560 / 10 ^ 34" by (simp add: zz_def)
    from horner_step[OF q conjunct1[OF s_14] conjunct2[OF s_14] l r] show ?thesis unfolding u .
  qed
  have s_12: "9692115319290021655415678244183910 / 10 ^ 34 \<le> trig_horner 8 25 zz \<and> trig_horner 8 25 zz \<le> 9692115319290021655415678244183913 / 10 ^ 34"
  proof -
    have u: "trig_horner 8 25 zz = 1 - zz / 702 * trig_horner 7 27 zz"
      by (rule trig_horner_unfold') simp_all
    have q: "0 \<le> zz / 702" by (simp add: zz_def)
    have l: "9692115319290021655415678244183910 / 10 ^ 34 \<le> 1 - zz / 702 * (9732914965762013338157874631248560 / 10 ^ 34)" by (simp add: zz_def)
    have r: "1 - zz / 702 * (9732914965762013338157874631248557 / 10 ^ 34) \<le> 9692115319290021655415678244183913 / 10 ^ 34" by (simp add: zz_def)
    from horner_step[OF q conjunct1[OF s_13] conjunct2[OF s_13] l r] show ?thesis unfolding u .
  qed
  have s_11: "9641284959958261058100936356473240 / 10 ^ 34 \<le> trig_horner 9 23 zz \<and> trig_horner 9 23 zz \<le> 9641284959958261058100936356473243 / 10 ^ 34"
  proof -
    have u: "trig_horner 9 23 zz = 1 - zz / 600 * trig_horner 8 25 zz"
      by (rule trig_horner_unfold') simp_all
    have q: "0 \<le> zz / 600" by (simp add: zz_def)
    have l: "9641284959958261058100936356473240 / 10 ^ 34 \<le> 1 - zz / 600 * (9692115319290021655415678244183913 / 10 ^ 34)" by (simp add: zz_def)
    have r: "1 - zz / 600 * (9692115319290021655415678244183910 / 10 ^ 34) \<le> 9641284959958261058100936356473243 / 10 ^ 34" by (simp add: zz_def)
    from horner_step[OF q conjunct1[OF s_12] conjunct2[OF s_12] l r] show ?thesis unfolding u .
  qed
  have s_10: "9576876968252645168260673184342115 / 10 ^ 34 \<le> trig_horner 10 21 zz \<and> trig_horner 10 21 zz \<le> 9576876968252645168260673184342118 / 10 ^ 34"
  proof -
    have u: "trig_horner 10 21 zz = 1 - zz / 506 * trig_horner 9 23 zz"
      by (rule trig_horner_unfold') simp_all
    have q: "0 \<le> zz / 506" by (simp add: zz_def)
    have l: "9576876968252645168260673184342115 / 10 ^ 34 \<le> 1 - zz / 506 * (9641284959958261058100936356473243 / 10 ^ 34)" by (simp add: zz_def)
    have r: "1 - zz / 506 * (9641284959958261058100936356473240 / 10 ^ 34) \<le> 9576876968252645168260673184342118 / 10 ^ 34" by (simp add: zz_def)
    from horner_step[OF q conjunct1[OF s_11] conjunct2[OF s_11] l r] show ?thesis unfolding u .
  qed
  have s_9: "9493642926386298500917402830481991 / 10 ^ 34 \<le> trig_horner 11 19 zz \<and> trig_horner 11 19 zz \<le> 9493642926386298500917402830481994 / 10 ^ 34"
  proof -
    have u: "trig_horner 11 19 zz = 1 - zz / 420 * trig_horner 10 21 zz"
      by (rule trig_horner_unfold') simp_all
    have q: "0 \<le> zz / 420" by (simp add: zz_def)
    have l: "9493642926386298500917402830481991 / 10 ^ 34 \<le> 1 - zz / 420 * (9576876968252645168260673184342118 / 10 ^ 34)" by (simp add: zz_def)
    have r: "1 - zz / 420 * (9576876968252645168260673184342115 / 10 ^ 34) \<le> 9493642926386298500917402830481994 / 10 ^ 34" by (simp add: zz_def)
    from horner_step[OF q conjunct1[OF s_10] conjunct2[OF s_10] l r] show ?thesis unfolding u .
  qed
  have s_8: "9383562499943203537991402981578275 / 10 ^ 34 \<le> trig_horner 12 17 zz \<and> trig_horner 12 17 zz \<le> 9383562499943203537991402981578278 / 10 ^ 34"
  proof -
    have u: "trig_horner 12 17 zz = 1 - zz / 342 * trig_horner 11 19 zz"
      by (rule trig_horner_unfold') simp_all
    have q: "0 \<le> zz / 342" by (simp add: zz_def)
    have l: "9383562499943203537991402981578275 / 10 ^ 34 \<le> 1 - zz / 342 * (9493642926386298500917402830481994 / 10 ^ 34)" by (simp add: zz_def)
    have r: "1 - zz / 342 * (9493642926386298500917402830481991 / 10 ^ 34) \<le> 9383562499943203537991402981578278 / 10 ^ 34" by (simp add: zz_def)
    from horner_step[OF q conjunct1[OF s_9] conjunct2[OF s_9] l r] show ?thesis unfolding u .
  qed
  have s_7: "9233907676722400285223452328998233 / 10 ^ 34 \<le> trig_horner 13 15 zz \<and> trig_horner 13 15 zz \<le> 9233907676722400285223452328998236 / 10 ^ 34"
  proof -
    have u: "trig_horner 13 15 zz = 1 - zz / 272 * trig_horner 12 17 zz"
      by (rule trig_horner_unfold') simp_all
    have q: "0 \<le> zz / 272" by (simp add: zz_def)
    have l: "9233907676722400285223452328998233 / 10 ^ 34 \<le> 1 - zz / 272 * (9383562499943203537991402981578278 / 10 ^ 34)" by (simp add: zz_def)
    have r: "1 - zz / 272 * (9383562499943203537991402981578275 / 10 ^ 34) \<le> 9233907676722400285223452328998236 / 10 ^ 34" by (simp add: zz_def)
    from horner_step[OF q conjunct1[OF s_8] conjunct2[OF s_8] l r] show ?thesis unfolding u .
  qed
  have s_6: "9023553401656083472411823680146560 / 10 ^ 34 \<le> trig_horner 14 13 zz \<and> trig_horner 14 13 zz \<le> 9023553401656083472411823680146563 / 10 ^ 34"
  proof -
    have u: "trig_horner 14 13 zz = 1 - zz / 210 * trig_horner 13 15 zz"
      by (rule trig_horner_unfold') simp_all
    have q: "0 \<le> zz / 210" by (simp add: zz_def)
    have l: "9023553401656083472411823680146560 / 10 ^ 34 \<le> 1 - zz / 210 * (9233907676722400285223452328998236 / 10 ^ 34)" by (simp add: zz_def)
    have r: "1 - zz / 210 * (9233907676722400285223452328998233 / 10 ^ 34) \<le> 9023553401656083472411823680146563 / 10 ^ 34" by (simp add: zz_def)
    from horner_step[OF q conjunct1[OF s_7] conjunct2[OF s_7] l r] show ?thesis unfolding u .
  qed
  have s_5: "8715496600483898161730496179193771 / 10 ^ 34 \<le> trig_horner 15 11 zz \<and> trig_horner 15 11 zz \<le> 8715496600483898161730496179193774 / 10 ^ 34"
  proof -
    have u: "trig_horner 15 11 zz = 1 - zz / 156 * trig_horner 14 13 zz"
      by (rule trig_horner_unfold') simp_all
    have q: "0 \<le> zz / 156" by (simp add: zz_def)
    have l: "8715496600483898161730496179193771 / 10 ^ 34 \<le> 1 - zz / 156 * (9023553401656083472411823680146563 / 10 ^ 34)" by (simp add: zz_def)
    have r: "1 - zz / 156 * (9023553401656083472411823680146560 / 10 ^ 34) \<le> 8715496600483898161730496179193774 / 10 ^ 34" by (simp add: zz_def)
    from horner_step[OF q conjunct1[OF s_6] conjunct2[OF s_6] l r] show ?thesis unfolding u .
  qed
  have s_4: "8240530608062870539701681570934819 / 10 ^ 34 \<le> trig_horner 16 9 zz \<and> trig_horner 16 9 zz \<le> 8240530608062870539701681570934823 / 10 ^ 34"
  proof -
    have u: "trig_horner 16 9 zz = 1 - zz / 110 * trig_horner 15 11 zz"
      by (rule trig_horner_unfold') simp_all
    have q: "0 \<le> zz / 110" by (simp add: zz_def)
    have l: "8240530608062870539701681570934819 / 10 ^ 34 \<le> 1 - zz / 110 * (8715496600483898161730496179193774 / 10 ^ 34)" by (simp add: zz_def)
    have r: "1 - zz / 110 * (8715496600483898161730496179193771 / 10 ^ 34) \<le> 8240530608062870539701681570934823 / 10 ^ 34" by (simp add: zz_def)
    from horner_step[OF q conjunct1[OF s_5] conjunct2[OF s_5] l r] show ?thesis unfolding u .
  qed
  have s_3: "7458413213854722835746690141387687 / 10 ^ 34 \<le> trig_horner 17 7 zz \<and> trig_horner 17 7 zz \<le> 7458413213854722835746690141387691 / 10 ^ 34"
  proof -
    have u: "trig_horner 17 7 zz = 1 - zz / 72 * trig_horner 16 9 zz"
      by (rule trig_horner_unfold') simp_all
    have q: "0 \<le> zz / 72" by (simp add: zz_def)
    have l: "7458413213854722835746690141387687 / 10 ^ 34 \<le> 1 - zz / 72 * (8240530608062870539701681570934823 / 10 ^ 34)" by (simp add: zz_def)
    have r: "1 - zz / 72 * (8240530608062870539701681570934819 / 10 ^ 34) \<le> 7458413213854722835746690141387691 / 10 ^ 34" by (simp add: zz_def)
    from horner_step[OF q conjunct1[OF s_4] conjunct2[OF s_4] l r] show ?thesis unfolding u .
  qed
  have s_2: "6056522077824807440778821078797525 / 10 ^ 34 \<le> trig_horner 18 5 zz \<and> trig_horner 18 5 zz \<le> 6056522077824807440778821078797530 / 10 ^ 34"
  proof -
    have u: "trig_horner 18 5 zz = 1 - zz / 42 * trig_horner 17 7 zz"
      by (rule trig_horner_unfold') simp_all
    have q: "0 \<le> zz / 42" by (simp add: zz_def)
    have l: "6056522077824807440778821078797525 / 10 ^ 34 \<le> 1 - zz / 42 * (7458413213854722835746690141387691 / 10 ^ 34)" by (simp add: zz_def)
    have r: "1 - zz / 42 * (7458413213854722835746690141387687 / 10 ^ 34) \<le> 6056522077824807440778821078797530 / 10 ^ 34" by (simp add: zz_def)
    from horner_step[OF q conjunct1[OF s_3] conjunct2[OF s_3] l r] show ?thesis unfolding u .
  qed
  have s_1: "3275258842608109546149818313154931 / 10 ^ 34 \<le> trig_horner 19 3 zz \<and> trig_horner 19 3 zz \<le> 3275258842608109546149818313154939 / 10 ^ 34"
  proof -
    have u: "trig_horner 19 3 zz = 1 - zz / 20 * trig_horner 18 5 zz"
      by (rule trig_horner_unfold') simp_all
    have q: "0 \<le> zz / 20" by (simp add: zz_def)
    have l: "3275258842608109546149818313154931 / 10 ^ 34 \<le> 1 - zz / 20 * (6056522077824807440778821078797530 / 10 ^ 34)" by (simp add: zz_def)
    have r: "1 - zz / 20 * (6056522077824807440778821078797525 / 10 ^ 34) \<le> 3275258842608109546149818313154939 / 10 ^ 34" by (simp add: zz_def)
    from horner_step[OF q conjunct1[OF s_2] conjunct2[OF s_2] l r] show ?thesis unfolding u .
  qed
  have s_0: "- (2122065907891937892973810133215521 / 10 ^ 34) \<le> trig_horner 20 1 zz \<and> trig_horner 20 1 zz \<le> - (2122065907891937892973810133215489 / 10 ^ 34)"
  proof -
    have u: "trig_horner 20 1 zz = 1 - zz / 6 * trig_horner 19 3 zz"
      by (rule trig_horner_unfold') simp_all
    have q: "0 \<le> zz / 6" by (simp add: zz_def)
    have l: "- (2122065907891937892973810133215521 / 10 ^ 34) \<le> 1 - zz / 6 * (3275258842608109546149818313154939 / 10 ^ 34)" by (simp add: zz_def)
    have r: "1 - zz / 6 * (3275258842608109546149818313154931 / 10 ^ 34) \<le> - (2122065907891937892973810133215489 / 10 ^ 34)" by (simp add: zz_def)
    from horner_step[OF q conjunct1[OF s_1] conjunct2[OF s_1] l r] show ?thesis unfolding u .
  qed
  show ?thesis by (rule s_0)
qed

lemma toRad270_range: "0 < toRad270" "toRad270 \<le> 5"
  by (simp_all add: toRad270_def)

lemma remainder_40: "(5::real) ^ 40 / fact 40 \<le> 12 / 10 ^ 21"
  by (simp add: fact_numeral)

lemma remainder_56: "(5::real) ^ 56 / fact 56 \<le> 2 / 10 ^ 36"
  by (simp add: fact_numeral)

lemma maclaurin_remainder:
  assumes "\<bar>c\<bar> \<le> 1"
  shows "\<bar>c / fact n * toRad270 ^ n\<bar> \<le> 5 ^ n / fact n"
proof -
  have "toRad270 ^ n \<le> 5 ^ n"
    using toRad270_range by (intro power_mono) auto
  moreover have "0 \<le> toRad270 ^ n" using toRad270_range by simp
  ultimately have "\<bar>c\<bar> * toRad270 ^ n \<le> 1 * 5 ^ n"
    using assms by (intro mult_mono) auto
  then have "\<bar>c\<bar> * toRad270 ^ n / fact n \<le> 5 ^ n / fact n"
    by (simp add: divide_right_mono)
  moreover have "\<bar>c / fact n * toRad270 ^ n\<bar> = \<bar>c\<bar> * toRad270 ^ n / fact n"
    using toRad270_range by (simp add: abs_mult)
  ultimately show ?thesis by linarith
qed

lemma cos_toRad270: "- (18369701987210297658598015271854989 / 10 ^ 50) \<le> cos toRad270 \<and> cos toRad270 \<le> - (18369701987210297658198015271854819 / 10 ^ 50)"
proof -
  have n: "(0::nat) < 56" by simp
  from Maclaurin_cos_expansion2[OF toRad270_range(1) n]
  obtain t where t: "cos toRad270 = (\<Sum>m<56. cos_coeff m * toRad270 ^ m)
      + cos (t + 1 / 2 * real 56 * pi) / fact 56 * toRad270 ^ 56" by blast
  have s: "(\<Sum>m<56. cos_coeff m * toRad270 ^ m) = trig_horner 28 0 zz"
    using cos_coeff_sum[where k=28 and arg=toRad270] by (simp add: zz_eq)
  have "\<bar>cos (t + 1 / 2 * real 56 * pi) / fact 56 * toRad270 ^ 56\<bar> \<le> 5 ^ 56 / fact 56"
    by (rule maclaurin_remainder) (rule abs_cos_le_one)
  with remainder_56
  have r: "\<bar>cos (t + 1 / 2 * real 56 * pi) / fact 56 * toRad270 ^ 56\<bar> \<le> 2 / 10 ^ 36"
    by (rule order_trans[rotated])
  define P where "P = trig_horner 28 0 zz"
  define R where "R = cos (t + 1 / 2 * real 56 * pi) / fact 56 * toRad270 ^ 56"
  have eq: "cos toRad270 = P + R" unfolding t s P_def R_def ..
  have rb: "- (2 / 10 ^ 36) \<le> R" "R \<le> 2 / 10 ^ 36"
    using r unfolding R_def by (simp_all only: abs_le_iff) linarith+
  have pb: "- (18369701987210297658398015271854989 / 10 ^ 50) \<le> P" "P \<le> - (18369701987210297658398015271854819 / 10 ^ 50)"
    using cos_horner_270 unfolding P_def by blast+
  from rb pb show ?thesis unfolding eq by simp
qed

lemma sin_toRad270: "- 1 < sin toRad270 \<and> sin toRad270 \<le> - 1 + 2 / 10 ^ 20"
proof -
  have n: "(0::nat) < 40" by simp
  from Maclaurin_sin_expansion3[OF n toRad270_range(1)]
  obtain t where t: "sin toRad270 = (\<Sum>m<40. sin_coeff m * toRad270 ^ m)
      + sin (t + 1 / 2 * real 40 * pi) / fact 40 * toRad270 ^ 40" by blast
  have s: "(\<Sum>m<40. sin_coeff m * toRad270 ^ m) = toRad270 * trig_horner 20 1 zz"
    using sin_coeff_sum[where k=20 and arg=toRad270] by (simp add: zz_eq)
  have "\<bar>sin (t + 1 / 2 * real 40 * pi) / fact 40 * toRad270 ^ 40\<bar> \<le> 5 ^ 40 / fact 40"
    by (rule maclaurin_remainder) (rule abs_sin_le_one)
  with remainder_40
  have r: "\<bar>sin (t + 1 / 2 * real 40 * pi) / fact 40 * toRad270 ^ 40\<bar> \<le> 12 / 10 ^ 21"
    by (rule order_trans[rotated])
  define P where "P = toRad270 * trig_horner 20 1 zz"
  define R where "R = sin (t + 1 / 2 * real 40 * pi) / fact 40 * toRad270 ^ 40"
  have eq: "sin toRad270 = P + R" unfolding t s P_def R_def ..
  have rb: "R \<le> 12 / 10 ^ 21"
    using r unfolding R_def by (simp only: abs_le_iff)
  from sin_horner_270 have h: "trig_horner 20 1 zz \<le> - (2122065907891937892973810133215489 / 10 ^ 34)" by blast
  have "toRad270 * trig_horner 20 1 zz \<le> toRad270 * (- (2122065907891937892973810133215489 / 10 ^ 34))"
    using h toRad270_range(1) by (intro mult_left_mono) auto
  also have "toRad270 * (- (2122065907891937892973810133215489 / 10 ^ 34)) \<le> - 1" by (simp add: toRad270_def)
  finally have pb: "P \<le> - 1" unfolding P_def .
  from rb pb have up: "sin toRad270 \<le> - 1 + 2 / 10 ^ 20" unfolding eq by simp
  have "cos toRad270 < 0" using cos_toRad270 by simp
  then have "cos toRad270 \<noteq> 0" by simp
  moreover have "(cos toRad270)\<^sup>2 = 1 - (sin toRad270)\<^sup>2" by (rule cos_squared_eq)
  ultimately have "(sin toRad270)\<^sup>2 \<noteq> 1" by auto
  then have "sin toRad270 \<noteq> - 1" by auto
  moreover have "- 1 \<le> sin toRad270" by (rule sin_ge_minus_one)
  ultimately show ?thesis using up by linarith
qed

lemma Math_sin_toRad270: "Math_sin toRad270 = - 1"
proof -
  have "fl (sin toRad270) = of_int (- 9007199254740992) / 2 ^ 53"
    using sin_toRad270 by (intro fl_eqI) (auto simp: abs_if)
  then show ?thesis by (simp add: Math_sin_def)
qed

lemma Math_cos_toRad270: "Math_cos toRad270 = - (7451636400032266 / 2 ^ 105)"
proof -
  define c where "c = cos toRad270"
  have c: "- (18369701987210297658598015271854989 / 10 ^ 50) \<le> c" "c \<le> - (18369701987210297658198015271854819 / 10 ^ 50)"
    using cos_toRad270 unfolding c_def by blast+
  then have neg: "c < 0" by simp
  have "fl c = of_int (- 7451636400032266) / 2 ^ 105"
  proof (rule fl_eqI)
    show "c \<noteq> 0" using neg by simp
    show "2 ^ 52 \<le> \<bar>c\<bar> * 2 ^ 105" using c neg by simp
    show "\<bar>c\<bar> * 2 ^ 105 < 2 ^ 53" using c neg by simp
    show "\<bar>c * 2 ^ 105 - of_int (- 7451636400032266)\<bar> < 1 / 2"
      using c by (simp add: abs_less_iff)
  qed
  then show ?thesis by (simp add: Math_cos_def c_def)
qed

lemma flowV_270: "fl (Math_cos toRad270 * 10) = - (4657272750020166 / 2 ^ 101)"
proof -
  have "fl (- (7451636400032266 / 2 ^ 105) * 10) = of_int (- 4657272750020166) / 2 ^ 101"
    by (rule fl_eqI) simp_all
  then show ?thesis by (simp add: Math_cos_toRad270)
qed

lemma fetchPointWind_east_value:
  "fetchPointWind (Resolved (Some \<lparr>hourly = Some \<lparr>windspeed_10m = Some (10 # ss),
                                                   winddirection_10m = Some (90 # ds)\<rparr>\<rparr>))
     = Sample \<lparr>spd = 10, deg = 90, u = - 10, v = - (4657272750020166 / 2 ^ 101)\<rparr>"
proof -
  have d: "fl (90 + 180) = 270" using fl_270 by simp
  have r: "js_rem 270 360 = 270" by (simp add: js_rem_def)
  have t: "fl (fl (270 * Math_PI) / 180) = toRad270"
    unfolding fl_270_pi by (rule fl_toRad)
  have su: "fl (Math_sin toRad270 * 10) = - 10"
    unfolding Math_sin_toRad270 using fl_minus_10 by simp
  show ?thesis
    unfolding fetchPointWind_def by (simp only: fetched.case option.case list.case prod.case
        hourly_wind.simps forecast.simps Let_def d r t su flowV_270)
qed

text \<open>
  C5, as the code has it: for a resolved sample whose first hourly entries give a speed
  of 10 and a source bearing of 90, \<^verbatim>\<open>fetchPointWind\<close> returns u = -10 exactly, and
  for v not 0 but the rounding residue of 10 cos at the double nearest to
  270 \<open>\<pi>\<close> / 180: the double -4657272750020166 / 2^101, about -1.83697e-15.
\<close>

theorem fetchPointWind_east:
  "fetchPointWind (Resolved (Some \<lparr>hourly = Some \<lparr>windspeed_10m = Some (10 # ss),
                                                   winddirection_10m = Some (90 # ds)\<rparr>\<rparr>))
     = Sample \<lparr>spd = 10, deg = 90, u = - 10, v = - (4657272750020166 / 2 ^ 101)\<rparr>
   \<and> - (183698 / 10 ^ 20) < - (4657272750020166 / 2 ^ 101 :: real)
   \<and> - (4657272750020166 / 2 ^ 101 :: real) < - (183696 / 10 ^ 20)"
  using fetchPointWind_east_value[of ss ds] by simp

text \<open>The returned v is not 0, so the sample is not (-10, 0).\<close>

theorem fetchPointWind_east_not_exact:
  "fetchPointWind (Resolved (Some \<lparr>hourly = Some \<lparr>windspeed_10m = Some [10],
                                                   winddirection_10m = Some [90]\<rparr>\<rparr>))
     \<noteq> Sample \<lparr>spd = 10, deg = 90, u = - 10, v = 0\<rparr>"
  using fetchPointWind_east_value[of "[]" "[]"] by simp

section \<open>Properties of the particle field\<close>

lemma newParticle_fields:
  "windParticles (snd (newParticle win st)) = windParticles st"
  "windRunning (snd (newParticle win st)) = windRunning st"
  "windCenter (snd (newParticle win st)) = windCenter st"
  "frame_requests (snd (newParticle win st)) = frame_requests st"
  "next_ref (snd (newParticle win st)) = next_ref st + 1"
  "fst (newParticle win st) = next_ref st"
  by (simp_all add: newParticle_def Let_def)

lemma initParticles_loop_refs:
  "windParticles (initParticles_loop win i st)
     = windParticles st @ [next_ref st ..< next_ref st + (650 - i)]
   \<and> windRunning (initParticles_loop win i st) = windRunning st"
proof (induction win i st rule: initParticles_loop.induct)
  case (1 win i st)
  show ?case
  proof (cases "i < 650")
    case True
    obtain r st' where np: "newParticle win st = (r, st')" by (cases "newParticle win st")
    from np have f: "r = next_ref st" "next_ref st' = next_ref st + 1"
      "windParticles st' = windParticles st" "windRunning st' = windRunning st"
      using newParticle_fields[of win st] by simp_all
    have step: "initParticles_loop win i st =
        initParticles_loop win (i + 1) (st'\<lparr>windParticles := windParticles st' @ [r]\<rparr>)"
      using True np by (subst initParticles_loop.simps) simp
    define a where "a = next_ref st"
    define n where "n = 650 - (i + 1)"
    have sn: "650 - i = Suc n" using True by (simp add: n_def)
    from "1.IH"[OF True np[symmetric]]
    have ih: "windParticles (initParticles_loop win i st) = (windParticles st @ [a]) @ [Suc a ..< Suc a + n]"
      and run: "windRunning (initParticles_loop win i st) = windRunning st"
      unfolding step a_def n_def by (simp_all add: f)
    have "[a ..< a + Suc n] = a # [Suc a ..< Suc a + n]"
      by (simp add: upt_conv_Cons)
    with ih run show ?thesis
      unfolding sn a_def[symmetric] by simp
  next
    case False
    then show ?thesis by (subst (1 2) initParticles_loop.simps) simp
  qed
qed

lemma initParticles_refs:
  "windParticles (initParticles win st) = [next_ref st ..< next_ref st + 650]"
  "windRunning (initParticles win st) = windRunning st"
proof -
  have z: "650 - (0::nat) = 650" by (rule diff_zero)
  have a: "windParticles (st\<lparr>windParticles := []\<rparr>) = []" by simp
  have b: "next_ref (st\<lparr>windParticles := []\<rparr>) = next_ref st" by simp
  have c: "windRunning (st\<lparr>windParticles := []\<rparr>) = windRunning st" by simp
  note l = initParticles_loop_refs[of win 0 "st\<lparr>windParticles := []\<rparr>", unfolded z a b c append_Nil]
  from l show "windParticles (initParticles win st) = [next_ref st ..< next_ref st + 650]"
    unfolding initParticles_def by (rule conjunct1)
  from l show "windRunning (initParticles win st) = windRunning st"
    unfolding initParticles_def by (rule conjunct2)
qed

lemma moveParticle_fields:
  "windParticles (moveParticle win sf p st) = windParticles st"
  "windRunning (moveParticle win sf p st) = windRunning st"
  by (simp_all add: moveParticle_def Let_def newParticle_def)

lemma fold_moveParticle_fields:
  "windParticles (fold (moveParticle win sf) ps st) = windParticles st
   \<and> windRunning (fold (moveParticle win sf) ps st) = windRunning st"
  by (induction ps arbitrary: st) (simp_all add: moveParticle_fields)

lemma loopParticles_fields:
  "windParticles (loopParticles win st) = windParticles st"
  "windRunning (loopParticles win st) = windRunning st"
  by (simp_all add: loopParticles_def Let_def fold_moveParticle_fields)



lemma initParticles_loop_step:
  "i < 650 \<Longrightarrow>
   initParticles_loop win i st =
     initParticles_loop win (i + 1)
       (st\<lparr>heap := (heap st)(next_ref st := fresh_particle win st 0),
           next_ref := next_ref st + 1,
           random_pos := random_pos st + 3,
           windParticles := windParticles st @ [next_ref st]\<rparr>)"
  by (subst initParticles_loop.simps) (simp add: newParticle_def Let_def fresh_particle_def)

lemma initParticles_loop_stop: "\<not> i < 650 \<Longrightarrow> initParticles_loop win i st = st"
  by (subst initParticles_loop.simps) simp

lemma initParticles_loop_old:
  "r < next_ref st \<Longrightarrow> heap (initParticles_loop win i st) r = heap st r"
proof (induction win i st rule: initParticles_loop.induct)
  case (1 win i st)
  show ?case
  proof (cases "i < 650")
    case True
    define q where "q = next_ref st"
    define st' where "st' = st\<lparr>heap := (heap st)(next_ref st := fresh_particle win st 0),
           next_ref := next_ref st + 1, random_pos := random_pos st + 3\<rparr>"
    have np: "newParticle win st = (q, st')"
      by (simp add: newParticle_def Let_def fresh_particle_def q_def st'_def)
    note st' = st'_def and q = q_def
    have "heap (initParticles_loop win (i + 1) (st'\<lparr>windParticles := windParticles st' @ [q]\<rparr>)) r
            = heap (st'\<lparr>windParticles := windParticles st' @ [q]\<rparr>) r"
      using "1.IH"[OF True np[symmetric]] "1.prems" by (simp add: st')
    moreover have "initParticles_loop win i st
        = initParticles_loop win (i + 1) (st'\<lparr>windParticles := windParticles st' @ [q]\<rparr>)"
      using True np by (subst initParticles_loop.simps) simp
    ultimately show ?thesis using "1.prems" by (simp add: st')
  next
    case False
    then show ?thesis by (simp add: initParticles_loop_stop)
  qed
qed

lemma initParticles_loop_fresh:
  "k < 650 - i \<Longrightarrow>
   heap (initParticles_loop win i st) (next_ref st + k) = fresh_particle win st k"
proof (induction win i st arbitrary: k rule: initParticles_loop.induct)
  case (1 win i st)
  from "1.prems" have lt: "i < 650" by simp
  define q where "q = next_ref st"
  define st' where "st' = st\<lparr>heap := (heap st)(next_ref st := fresh_particle win st 0),
         next_ref := next_ref st + 1, random_pos := random_pos st + 3\<rparr>"
  have np: "newParticle win st = (q, st')"
    by (simp add: newParticle_def Let_def fresh_particle_def q_def st'_def)
  note st' = st'_def and q = q_def
  define st2 where "st2 = st'\<lparr>windParticles := windParticles st' @ [q]\<rparr>"
  have step: "initParticles_loop win i st = initParticles_loop win (i + 1) st2"
    using lt np unfolding st2_def by (subst initParticles_loop.simps) simp
  have nr: "next_ref st2 = next_ref st + 1" and rp: "random_pos st2 = random_pos st + 3"
    and rn: "random st2 = random st" and hp: "heap st2 (next_ref st) = fresh_particle win st 0"
    by (simp_all add: st2_def st')
  show ?case
  proof (cases k)
    case 0
    have "heap (initParticles_loop win (i + 1) st2) (next_ref st) = heap st2 (next_ref st)"
      by (rule initParticles_loop_old) (simp add: nr)
    then show ?thesis using 0 step hp by simp
  next
    case (Suc k')
    with "1.prems" have "k' < 650 - (i + 1)" by simp
    from "1.IH"[OF lt np[symmetric] this, folded st2_def]
    have "heap (initParticles_loop win (i + 1) st2) (next_ref st2 + k') = fresh_particle win st2 k'" .
    moreover have "fresh_particle win st2 k' = fresh_particle win st (Suc k')"
      by (simp add: fresh_particle_def rp rn algebra_simps)
    ultimately show ?thesis using Suc step nr by simp
  qed
qed

lemma resizeCanvas_listener_reinit:
  assumes "windRunning st" and "k < 650"
  shows "windParticles (resizeCanvas_listener win st) = [next_ref st ..< next_ref st + 650]
         \<and> heap (resizeCanvas_listener win st) (next_ref st + k) = fresh_particle win st k
         \<and> canvasWidth (resizeCanvas_listener win st) = \<lfloor>innerWidth win\<rfloor>
         \<and> canvasHeight (resizeCanvas_listener win st) = \<lfloor>innerHeight win\<rfloor>"
proof -
  define st1 where "st1 = resizeCanvas win st"
  have f: "windRunning st1" "next_ref st1 = next_ref st" "random st1 = random st"
    "random_pos st1 = random_pos st"
    "canvasWidth st1 = \<lfloor>innerWidth win\<rfloor>" "canvasHeight st1 = \<lfloor>innerHeight win\<rfloor>"
    using assms(1) by (simp_all add: st1_def resizeCanvas_def)
  have l: "resizeCanvas_listener win st = initParticles win st1"
    using f(1) by (simp add: resizeCanvas_listener_def st1_def[symmetric] Let_def)
  have fp: "fresh_particle win st1 k = fresh_particle win st k"
    by (simp add: fresh_particle_def f)
  have k0: "k < 650 - 0" using assms(2) by simp
  have h: "heap (initParticles win st1) (next_ref st + k) = fresh_particle win st k"
    using initParticles_loop_fresh[OF k0, of win "st1\<lparr>windParticles := []\<rparr>"]
    by (simp add: initParticles_def fresh_particle_def f)
  have cw: "canvasWidth (initParticles_loop win i s) = canvasWidth s
      \<and> canvasHeight (initParticles_loop win i s) = canvasHeight s" for i s
  proof (induction win i s rule: initParticles_loop.induct)
    case (1 win i s)
    show ?case
    proof (cases "i < 650")
      case True
      obtain q s' where np: "newParticle win s = (q, s')" by (cases "newParticle win s")
      then have "canvasWidth s' = canvasWidth s" "canvasHeight s' = canvasHeight s"
        by (auto simp: newParticle_def Let_def)
      moreover have "initParticles_loop win i s
          = initParticles_loop win (i + 1) (s'\<lparr>windParticles := windParticles s' @ [q]\<rparr>)"
        using True np by (subst initParticles_loop.simps) simp
      ultimately show ?thesis using "1.IH"[OF True np[symmetric]] by simp
    next
      case False
      then show ?thesis by (simp add: initParticles_loop_stop)
    qed
  qed
  have c: "canvasWidth (initParticles win st1) = \<lfloor>innerWidth win\<rfloor>"
    "canvasHeight (initParticles win st1) = \<lfloor>innerHeight win\<rfloor>"
    using cw[of 0 "st1\<lparr>windParticles := []\<rparr>"] by (simp_all add: initParticles_def f)
  from initParticles_refs(1)[of win st1] h c show ?thesis
    unfolding l f(2) by (intro conjI)
qed















text \<open>
  C8: on a running field, the resize listener \<^verbatim>\<open>resizeWindCanvas\<close> leaves the pool,
  every particle object and the random source as they were: no particle is given a new
  position or age.
\<close>

theorem resize_keeps_stale_pool:
  "windRunning (startWindParticles win st)
   \<and> windParticles (wind_handle (startWindParticles win st) (WindowResize win'))
       = windParticles (startWindParticles win st)
   \<and> heap (wind_handle (startWindParticles win st) (WindowResize win'))
       = heap (startWindParticles win st)
   \<and> random_pos (wind_handle (startWindParticles win st) (WindowResize win'))
       = random_pos (startWindParticles win st)"
proof -
  have "windRunning (startWindParticles win st)"
    unfolding startWindParticles_def loopParticles_fields initParticles_refs by simp
  then show ?thesis
    by (simp add: wind_handle_def resizeWindCanvas_def Let_def)
qed

section \<open>Properties of the glyph layers\<close>

text \<open>
  C9: for the wind arrows and for the rain direction alike, once a call of clear has
  returned, the layer reference is null and the layer is off the map, and a second call
  returns normally with the state unchanged.
\<close>

theorem clear_idempotent:
  "(clearWindArrows st = Inr st1 \<longrightarrow>
      clearWindArrows st1 = Inr st1 \<and> windArrowLayer st1 = None
      \<and> (\<forall>l. windArrowLayer st = Some l \<longrightarrow> l \<notin> map_layers st1))
   \<and> (clearRainDirection st = Inr st2 \<longrightarrow>
      clearRainDirection st2 = Inr st2 \<and> rainDirLayer st2 = None
      \<and> (\<forall>l. rainDirLayer st = Some l \<longrightarrow> l \<notin> map_layers st2))"
  by (auto simp: clearWindArrows_def clearRainDirection_def split: option.splits if_splits)

theorem clear_idempotent_witness:
  "clearWindArrows \<lparr>map_exists = True, map_layers = {1, 2}, next_layer = 3,
                     windArrowLayer = Some 1, rainDirLayer = Some 2\<rparr>
     = Inr \<lparr>map_exists = True, map_layers = {2}, next_layer = 3,
            windArrowLayer = None, rainDirLayer = Some 2\<rparr>
   \<and> clearWindArrows \<lparr>map_exists = True, map_layers = {2}, next_layer = 3,
                       windArrowLayer = None, rainDirLayer = Some 2\<rparr>
     = Inr \<lparr>map_exists = True, map_layers = {2}, next_layer = 3,
            windArrowLayer = None, rainDirLayer = Some 2\<rparr>
   \<and> clearRainDirection \<lparr>map_exists = True, map_layers = {1, 2}, next_layer = 3,
                          windArrowLayer = Some 1, rainDirLayer = Some 2\<rparr>
     = Inr \<lparr>map_exists = True, map_layers = {1}, next_layer = 3,
            windArrowLayer = Some 1, rainDirLayer = None\<rparr>
   \<and> clearRainDirection \<lparr>map_exists = True, map_layers = {1}, next_layer = 3,
                          windArrowLayer = Some 1, rainDirLayer = None\<rparr>
     = Inr \<lparr>map_exists = True, map_layers = {1}, next_layer = 3,
            windArrowLayer = Some 1, rainDirLayer = None\<rparr>"
proof -
  have w: "clearWindArrows \<lparr>map_exists = True, map_layers = {1, 2}, next_layer = 3,
                     windArrowLayer = Some 1, rainDirLayer = Some 2\<rparr>
     = Inr \<lparr>map_exists = True, map_layers = {2}, next_layer = 3,
            windArrowLayer = None, rainDirLayer = Some 2\<rparr>"
    by (simp add: clearWindArrows_def insert_Diff_if)
  have r: "clearRainDirection \<lparr>map_exists = True, map_layers = {1, 2}, next_layer = 3,
                          windArrowLayer = Some 1, rainDirLayer = Some 2\<rparr>
     = Inr \<lparr>map_exists = True, map_layers = {1}, next_layer = 3,
            windArrowLayer = Some 1, rainDirLayer = None\<rparr>"
    by (simp add: clearRainDirection_def insert_Diff_if)
  from clear_idempotent[of "\<lparr>map_exists = True, map_layers = {1, 2}, next_layer = 3,
                     windArrowLayer = Some 1, rainDirLayer = Some 2\<rparr>"] w r
  show ?thesis by blast
qed

end
